theory Spec2Isabelle
  imports Complex_Main "HOL-Library.AList"
begin

section \<open>JavaScript numbers\<close>

text \<open>
  The viewer computes with JavaScript numbers. A number is modelled as a finite real or one
  of the three special values of IEEE arithmetic. The operations of this section are exact
  on finite numbers; the rounding of a result to double precision is the subject of the
  next section. There is a single zero, read as \<open>+0\<close>: the only divisors that can be
  zero in the code below are results of \<open>Math.hypot\<close> and the initial value \<open>0\<close> of a ref.
  The special values follow the language: \<open>x / 0\<close> is an infinity for \<open>x \<noteq> 0\<close>, \<open>0 / 0\<close> and
  \<open>Infinity - Infinity\<close> and \<open>0 * Infinity\<close> are \<open>NaN\<close>, every comparison with \<open>NaN\<close> is false,
  and \<open>Math.min\<close> and \<open>Math.max\<close> return \<open>NaN\<close> when an argument is \<open>NaN\<close>.
\<close>

datatype number = Num real | PosInfinity | NegInfinity | NaN

fun js_neg :: "number \<Rightarrow> number" where
  "js_neg (Num a) = Num (- a)"
| "js_neg PosInfinity = NegInfinity"
| "js_neg NegInfinity = PosInfinity"
| "js_neg NaN = NaN"

fun js_add :: "number \<Rightarrow> number \<Rightarrow> number" where
  "js_add (Num a) (Num b) = Num (a + b)"
| "js_add (Num a) PosInfinity = PosInfinity"
| "js_add (Num a) NegInfinity = NegInfinity"
| "js_add PosInfinity (Num b) = PosInfinity"
| "js_add PosInfinity PosInfinity = PosInfinity"
| "js_add PosInfinity NegInfinity = NaN"
| "js_add NegInfinity (Num b) = NegInfinity"
| "js_add NegInfinity PosInfinity = NaN"
| "js_add NegInfinity NegInfinity = NegInfinity"
| "js_add NaN b = NaN"
| "js_add a NaN = NaN"

definition js_sub :: "number \<Rightarrow> number \<Rightarrow> number" where
  "js_sub a b = js_add a (js_neg b)"

text \<open>The sign rule shared by multiplication and division with an infinite operand.\<close>

definition signed_infinity :: "bool \<Rightarrow> number" where
  "signed_infinity positive = (if positive then PosInfinity else NegInfinity)"

fun js_mul :: "number \<Rightarrow> number \<Rightarrow> number" where
  "js_mul (Num a) (Num b) = Num (a * b)"
| "js_mul (Num a) PosInfinity = (if a = 0 then NaN else signed_infinity (0 < a))"
| "js_mul (Num a) NegInfinity = (if a = 0 then NaN else signed_infinity (a < 0))"
| "js_mul PosInfinity (Num b) = (if b = 0 then NaN else signed_infinity (0 < b))"
| "js_mul NegInfinity (Num b) = (if b = 0 then NaN else signed_infinity (b < 0))"
| "js_mul PosInfinity PosInfinity = PosInfinity"
| "js_mul PosInfinity NegInfinity = NegInfinity"
| "js_mul NegInfinity PosInfinity = NegInfinity"
| "js_mul NegInfinity NegInfinity = PosInfinity"
| "js_mul NaN b = NaN"
| "js_mul a NaN = NaN"

fun js_div :: "number \<Rightarrow> number \<Rightarrow> number" where
  "js_div (Num a) (Num b) =
     (if b = 0 then (if a = 0 then NaN else signed_infinity (0 < a)) else Num (a / b))"
| "js_div (Num a) PosInfinity = Num 0"
| "js_div (Num a) NegInfinity = Num 0"
| "js_div PosInfinity (Num b) = signed_infinity (0 \<le> b)"
| "js_div NegInfinity (Num b) = signed_infinity (b < 0)"
| "js_div PosInfinity PosInfinity = NaN"
| "js_div PosInfinity NegInfinity = NaN"
| "js_div NegInfinity PosInfinity = NaN"
| "js_div NegInfinity NegInfinity = NaN"
| "js_div NaN b = NaN"
| "js_div a NaN = NaN"

fun js_le :: "number \<Rightarrow> number \<Rightarrow> bool" where
  "js_le (Num a) (Num b) = (a \<le> b)"
| "js_le (Num a) PosInfinity = True"
| "js_le (Num a) NegInfinity = False"
| "js_le PosInfinity (Num b) = False"
| "js_le PosInfinity PosInfinity = True"
| "js_le PosInfinity NegInfinity = False"
| "js_le NegInfinity (Num b) = True"
| "js_le NegInfinity PosInfinity = True"
| "js_le NegInfinity NegInfinity = True"
| "js_le NaN b = False"
| "js_le a NaN = False"

fun js_lt :: "number \<Rightarrow> number \<Rightarrow> bool" where
  "js_lt (Num a) (Num b) = (a < b)"
| "js_lt (Num a) PosInfinity = True"
| "js_lt (Num a) NegInfinity = False"
| "js_lt PosInfinity b = False"
| "js_lt NegInfinity (Num b) = True"
| "js_lt NegInfinity PosInfinity = True"
| "js_lt NegInfinity NegInfinity = False"
| "js_lt NaN b = False"
| "js_lt a NaN = False"

definition js_gt :: "number \<Rightarrow> number \<Rightarrow> bool" where
  "js_gt a b = js_lt b a"

text \<open>Strict equality \<open>===\<close> on numbers: \<open>NaN\<close> is equal to nothing.\<close>

definition js_eq :: "number \<Rightarrow> number \<Rightarrow> bool" where
  "js_eq a b = (a \<noteq> NaN \<and> b \<noteq> NaN \<and> a = b)"

definition Math_min :: "number \<Rightarrow> number \<Rightarrow> number" where
  "Math_min a b = (if a = NaN \<or> b = NaN then NaN else if js_le a b then a else b)"

definition Math_max :: "number \<Rightarrow> number \<Rightarrow> number" where
  "Math_max a b = (if a = NaN \<or> b = NaN then NaN else if js_le a b then b else a)"

text \<open>\<open>Math.hypot\<close> of two finite arguments.\<close>

definition Math_hypot :: "real \<Rightarrow> real \<Rightarrow> real" where
  "Math_hypot a b = sqrt (a\<^sup>2 + b\<^sup>2)"

section \<open>Rounding to double precision\<close>

text \<open>
  A JavaScript number is an IEEE 754 double, and every arithmetic operation returns the
  exact result rounded to the nearest double, ties to even. \<open>to_double\<close> is that rounding
  for a real: the unit in the last place of \<open>x\<close> is \<open>2\<close> to the power \<open>ulp_exponent x\<close> (52
  bits below the leading bit of \<open>x\<close>, and \<open>2 ^ -1074\<close> for the subnormal numbers), \<open>x\<close> is
  rounded to a multiple of it, and a result of magnitude \<open>2 ^ 1024\<close> or more is an infinity.
  \<open>fl_sub\<close>, \<open>fl_mul\<close> and \<open>fl_div\<close> are the operators \<open>-\<close>, \<open>*\<close> and \<open>/\<close> with their result
  rounded.
\<close>

definition round_half_even :: "real \<Rightarrow> int" where
  "round_half_even x =
     (let f = \<lfloor>x\<rfloor>; d = x - of_int f
      in if d < 1 / 2 then f else if 1 / 2 < d then f + 1 else if even f then f else f + 1)"

definition ulp_exponent :: "real \<Rightarrow> int" where
  "ulp_exponent x = max \<lfloor>log 2 \<bar>x\<bar>\<rfloor> (- 1022) - 52"

definition nearest_double :: "real \<Rightarrow> real" where
  "nearest_double x =
     (if x = 0 then 0
      else of_int (round_half_even (x / 2 powr of_int (ulp_exponent x))) * 2 powr of_int (ulp_exponent x))"

definition to_double :: "real \<Rightarrow> number" where
  "to_double x =
     (let r = nearest_double x
      in if 2 ^ 1024 \<le> r then PosInfinity else if r \<le> - (2 ^ 1024) then NegInfinity else Num r)"

fun rounded :: "number \<Rightarrow> number" where
  "rounded (Num x) = to_double x"
| "rounded PosInfinity = PosInfinity"
| "rounded NegInfinity = NegInfinity"
| "rounded NaN = NaN"

definition fl_sub :: "number \<Rightarrow> number \<Rightarrow> number" where
  "fl_sub a b = rounded (js_sub a b)"

definition fl_mul :: "number \<Rightarrow> number \<Rightarrow> number" where
  "fl_mul a b = rounded (js_mul a b)"

definition fl_div :: "number \<Rightarrow> number \<Rightarrow> number" where
  "fl_div a b = rounded (js_div a b)"

section \<open>The image viewer (ImageViewer.tsx)\<close>

definition MIN_SCALE :: real where "MIN_SCALE = 1 / 2"
definition MAX_SCALE :: real where "MAX_SCALE = 8"
definition ZOOM_SPEED :: real where "ZOOM_SPEED = 1 / 10"
definition MOBILE_ZOOM_SPEED :: real where "MOBILE_ZOOM_SPEED = 1 / 1000"
definition ZOOM_BIAS :: real where "ZOOM_BIAS = 105 / 100"

text \<open>
  The component's state: the \<open>useState\<close> cells \<open>scale\<close>, \<open>zoomSpeed\<close>, \<open>position\<close> and
  \<open>isDragging\<close>, and the refs \<open>lastTouchDistance\<close>, \<open>dragStart\<close> and \<open>wasDragging\<close>. A
  point \<open>{x, y}\<close> is a pair. The zoom label and its hide timer are display state that no
  transform reads; they are left out. Each handler is one atomic step on the current
  state: the callbacks a handler passes to \<open>requestAnimationFrame\<close> run within the step.
\<close>

record viewer =
  scale :: number
  zoomSpeed :: number
  position :: "number \<times> number"
  isDragging :: bool
  lastTouchDistance :: real
  dragStart :: "number \<times> number"
  wasDragging :: bool

definition initial_viewer :: viewer where
  "initial_viewer =
     \<lparr>scale = Num 1, zoomSpeed = Num (1 / 10), position = (Num 0, Num 0), isDragging = False,
      lastTouchDistance = 0, dragStart = (Num 0, Num 0), wasDragging = False\<rparr>"

text \<open>
  Events carry finite coordinates. A keyboard event is its \<open>key\<close> and \<open>code\<close> with the four
  modifier flags; a mouse event its target, button, geometry and modifier flags; a wheel
  event is a mouse event with \<open>deltaY\<close>. The target is a DOM element (\<open>node\<close>, below). A
  touch point is its client position. \<open>rect\<close> is the \<open>DOMRect\<close> of the container, absent when
  \<open>containerRef.current\<close> is null.
\<close>

datatype node =
  Node (ident: nat) (localName: string) (classList: "string list")
       (attributes: "(string \<times> string) list") (src: string) (outerHTML: string)
       (parentElement: "node option")

record modifiers =
  ctrlKey :: bool
  shiftKey :: bool
  altKey :: bool
  metaKey :: bool

record keyboard_state = modifiers +
  key :: string
  code :: string

record mouse_event = modifiers +
  target :: "node option"
  button :: int
  screenX :: real
  screenY :: real
  clientX :: real
  clientY :: real
  offsetX :: real
  offsetY :: real

record wheel_event = mouse_event +
  deltaY :: real

record touch =
  touch_clientX :: real
  touch_clientY :: real

record rect =
  rect_left :: real
  rect_top :: real
  rect_width :: real
  rect_height :: real

definition handleZoomIn :: "viewer \<Rightarrow> viewer" where
  "handleZoomIn v =
     (let newScale = Math_min (js_add (scale v) (Num ZOOM_SPEED)) (Num MAX_SCALE)
      in v\<lparr>scale := newScale,
            zoomSpeed := js_mul (js_mul (Num ZOOM_SPEED) (Num ZOOM_BIAS)) newScale\<rparr>)"

definition handleZoomOut :: "viewer \<Rightarrow> viewer" where
  "handleZoomOut v =
     (let newScale = Math_max (js_sub (scale v) (Num ZOOM_SPEED)) (Num MIN_SCALE)
      in if js_le newScale (Num 1)
         then v\<lparr>position := (Num 0, Num 0), scale := newScale, zoomSpeed := Num ZOOM_SPEED\<rparr>
         else v\<lparr>scale := newScale,
                zoomSpeed := js_mul (js_mul (Num ZOOM_SPEED) (Num ZOOM_BIAS)) newScale\<rparr>)"

definition handleResetZoom :: "viewer \<Rightarrow> viewer" where
  "handleResetZoom v = v\<lparr>scale := Num 1, position := (Num 0, Num 0), zoomSpeed := Num ZOOM_SPEED\<rparr>"

definition getZoomedOffset ::
  "number \<Rightarrow> number \<Rightarrow> number \<Rightarrow> number \<Rightarrow> number \<times> number \<Rightarrow> number \<times> number" where
  "getZoomedOffset anchorX anchorY currentScale nextScale currentPos =
     (let scaleChange = js_div nextScale currentScale
      in (js_sub anchorX (js_mul (js_sub anchorX (fst currentPos)) scaleChange),
          js_sub anchorY (js_mul (js_sub anchorY (snd currentPos)) scaleChange)))"

text \<open>
  The handlers below call \<open>getZoomedOffset\<close> as it stands above, with finite arithmetic
  exact. \<open>getZoomedOffset_double\<close> is the same function with each of its four operations
  rounded to double precision.
\<close>

definition getZoomedOffset_double ::
  "number \<Rightarrow> number \<Rightarrow> number \<Rightarrow> number \<Rightarrow> number \<times> number \<Rightarrow> number \<times> number" where
  "getZoomedOffset_double anchorX anchorY currentScale nextScale currentPos =
     (let scaleChange = fl_div nextScale currentScale
      in (fl_sub anchorX (fl_mul (fl_sub anchorX (fst currentPos)) scaleChange),
          fl_sub anchorY (fl_mul (fl_sub anchorY (snd currentPos)) scaleChange)))"

definition handleWheel :: "wheel_event \<Rightarrow> rect option \<Rightarrow> viewer \<Rightarrow> viewer" where
  "handleWheel e container v =
     (if \<not> (ctrlKey e \<or> metaKey e) then v
      else case container of
        None \<Rightarrow> v
      | Some r \<Rightarrow>
          (let delta = (if 0 < deltaY e then js_neg (zoomSpeed v) else zoomSpeed v);
               newScale = Math_min (Math_max (js_add (scale v) delta) (Num MIN_SCALE)) (Num MAX_SCALE);
               newZoom = js_mul (js_mul (Num ZOOM_SPEED) (Num ZOOM_BIAS)) newScale
           in if js_le newScale (Num 1)
              then v\<lparr>position := (Num 0, Num 0), scale := newScale, zoomSpeed := Num ZOOM_SPEED\<rparr>
              else (let mouseX = clientX e - rect_left r - rect_width r / 2;
                        mouseY = clientY e - rect_top r - rect_height r / 2
                    in v\<lparr>position :=
                           getZoomedOffset (Num mouseX) (Num mouseY) (scale v) newScale (position v),
                         scale := newScale, zoomSpeed := newZoom\<rparr>)))"

definition handleImageMouseDown :: "mouse_event \<Rightarrow> viewer \<Rightarrow> viewer" where
  "handleImageMouseDown e v =
     (if isDragging v \<or> js_le (scale v) (Num 1) then v
      else v\<lparr>isDragging := True, wasDragging := False,
             dragStart := (js_sub (Num (clientX e)) (fst (position v)),
                           js_sub (Num (clientY e)) (snd (position v)))\<rparr>)"

definition handleImageMouseMove :: "mouse_event \<Rightarrow> viewer \<Rightarrow> viewer" where
  "handleImageMouseMove e v =
     (if \<not> isDragging v \<or> js_le (scale v) (Num 1) then v
      else v\<lparr>wasDragging := True,
             position := (js_sub (Num (clientX e)) (fst (dragStart v)),
                          js_sub (Num (clientY e)) (snd (dragStart v)))\<rparr>)"

definition handleImageMouseUp :: "viewer \<Rightarrow> viewer" where
  "handleImageMouseUp v = v\<lparr>isDragging := False\<rparr>"

text \<open>
  \<open>touches\<close> is the event's list of active touch points. After the length tests of the
  source the guards \<open>if (!touch) return\<close> never fire; the patterns below cover them.
\<close>

definition onTouchStart :: "touch list \<Rightarrow> viewer \<Rightarrow> viewer" where
  "onTouchStart touches v =
     (if length touches = 1 \<and> js_gt (scale v) (Num 1) then
        (let v1 = v\<lparr>isDragging := True, wasDragging := False\<rparr>
         in case touches of
              [] \<Rightarrow> v1
            | t # _ \<Rightarrow>
                v1\<lparr>dragStart := (js_sub (Num (touch_clientX t)) (fst (position v)),
                                  js_sub (Num (touch_clientY t)) (snd (position v)))\<rparr>)
      else if length touches = 2 then
        (let v1 = v\<lparr>isDragging := True, wasDragging := False\<rparr>
         in case touches of
              t1 # t2 # _ \<Rightarrow>
                v1\<lparr>lastTouchDistance :=
                      Math_hypot (touch_clientX t1 - touch_clientX t2)
                                 (touch_clientY t1 - touch_clientY t2)\<rparr>
            | _ \<Rightarrow> v1)
      else v)"

definition onTouchMove :: "touch list \<Rightarrow> rect option \<Rightarrow> viewer \<Rightarrow> viewer" where
  "onTouchMove touches container v =
     (if length touches = 1 \<and> js_gt (scale v) (Num 1) \<and> isDragging v then
        (let v1 = v\<lparr>wasDragging := True\<rparr>
         in case touches of
              [] \<Rightarrow> v1
            | t # _ \<Rightarrow>
                v1\<lparr>position := (js_sub (Num (touch_clientX t)) (fst (dragStart v)),
                                 js_sub (Num (touch_clientY t)) (snd (dragStart v)))\<rparr>)
      else if length touches = 2 then
        (let v1 = v\<lparr>wasDragging := True\<rparr>
         in case container of
              None \<Rightarrow> v1
            | Some r \<Rightarrow>
               (case touches of
                  t1 # t2 # _ \<Rightarrow>
                    (let currentDistance =
                           Math_hypot (touch_clientX t1 - touch_clientX t2)
                                      (touch_clientY t1 - touch_clientY t2);
                         distanceChange = js_div (Num currentDistance) (Num (lastTouchDistance v));
                         newScale = Math_min (Math_max (js_mul (scale v) distanceChange)
                                                       (Num MIN_SCALE)) (Num MAX_SCALE);
                         newZoom = js_mul (js_mul (Num MOBILE_ZOOM_SPEED) (Num ZOOM_BIAS))
                                          distanceChange
                     in if js_le newScale (Num 1)
                        then v1\<lparr>position := (Num 0, Num 0), scale := newScale,
                                zoomSpeed := Num ZOOM_SPEED\<rparr>
                        else (let touchX = (touch_clientX t1 + touch_clientX t2) / 2
                                           - rect_left r - rect_width r / 2;
                                  touchY = (touch_clientY t1 + touch_clientY t2) / 2
                                           - rect_top r - rect_height r / 2
                              in v1\<lparr>position :=
                                      getZoomedOffset (Num touchX) (Num touchY) (scale v) newScale
                                        (position v),
                                    scale := newScale, zoomSpeed := newZoom,
                                    lastTouchDistance := currentDistance\<rparr>))
                | _ \<Rightarrow> v1))
      else v)"

definition onTouchEnd :: "touch list \<Rightarrow> viewer \<Rightarrow> viewer" where
  "onTouchEnd touches v =
     (let v1 = (if length touches = 1 then
                  (case touches of
                     [] \<Rightarrow> v
                   | t # _ \<Rightarrow>
                       v\<lparr>dragStart := (js_sub (Num (touch_clientX t)) (fst (position v)),
                                        js_sub (Num (touch_clientY t)) (snd (position v)))\<rparr>)
                else v)
      in if length touches = 0 then v1\<lparr>isDragging := False\<rparr> else v1)"

definition handleReset :: "viewer \<Rightarrow> viewer" where
  "handleReset v = v\<lparr>scale := Num 1, position := (Num 0, Num 0), zoomSpeed := Num ZOOM_SPEED\<rparr>"

definition onDoubleClick :: "mouse_event \<Rightarrow> rect option \<Rightarrow> viewer \<Rightarrow> viewer" where
  "onDoubleClick e container v =
     (case container of
        None \<Rightarrow> v
      | Some r \<Rightarrow>
          if js_eq (scale v) (Num 1) then
            (let mouseX = clientX e - rect_left r - rect_width r / 2;
                 mouseY = clientY e - rect_top r - rect_height r / 2;
                 newScale = Num 2
             in v\<lparr>position :=
                    getZoomedOffset (Num mouseX) (Num mouseY) (scale v) newScale (position v),
                  scale := newScale\<rparr>)
          else handleReset v)"

text \<open>
  The keyboard shortcuts. \<open>onClose\<close>, \<open>onPrevious\<close> and \<open>onNext\<close> belong to the embedding
  component and leave this state alone, so Escape and the arrow keys return it unchanged.
\<close>

definition handleKeyDown :: "keyboard_state \<Rightarrow> bool \<Rightarrow> bool \<Rightarrow> viewer \<Rightarrow> viewer" where
  "handleKeyDown e hasPrevious hasNext v =
     (if key e = ''Escape'' then v
      else if key e = ''ArrowLeft'' \<and> hasPrevious then v
      else if key e = ''ArrowRight'' \<and> hasNext then v
      else if ctrlKey e \<or> metaKey e then
        (if key e = ''='' \<or> key e = ''+'' then handleZoomIn v
         else if key e = ''-'' \<or> key e = ''_'' then handleZoomOut v
         else if key e = ''0'' then handleResetZoom v
         else v)
      else v)"

definition handleContainerClick :: "viewer \<Rightarrow> viewer" where
  "handleContainerClick v = (if wasDragging v then v\<lparr>wasDragging := False\<rparr> else v)"

definition handleImageClick :: "viewer \<Rightarrow> viewer" where
  "handleImageClick v = (if wasDragging v then v\<lparr>wasDragging := False\<rparr> else v)"

text \<open>A sequence of viewer operations, applied from left to right.\<close>

datatype viewer_op =
    ZoomIn
  | ZoomOut
  | ResetZoom
  | Reset
  | Wheel wheel_event "rect option"
  | ImageMouseDown mouse_event
  | ImageMouseMove mouse_event
  | ImageMouseUp
  | TouchStart "touch list"
  | TouchMove "touch list" "rect option"
  | TouchEnd "touch list"
  | DoubleClick mouse_event "rect option"
  | KeyDown keyboard_state bool bool
  | ContainerClick
  | ImageClick

fun apply_op :: "viewer \<Rightarrow> viewer_op \<Rightarrow> viewer" where
  "apply_op v ZoomIn = handleZoomIn v"
| "apply_op v ZoomOut = handleZoomOut v"
| "apply_op v ResetZoom = handleResetZoom v"
| "apply_op v Reset = handleReset v"
| "apply_op v (Wheel e container) = handleWheel e container v"
| "apply_op v (ImageMouseDown e) = handleImageMouseDown e v"
| "apply_op v (ImageMouseMove e) = handleImageMouseMove e v"
| "apply_op v ImageMouseUp = handleImageMouseUp v"
| "apply_op v (TouchStart touches) = onTouchStart touches v"
| "apply_op v (TouchMove touches container) = onTouchMove touches container v"
| "apply_op v (TouchEnd touches) = onTouchEnd touches v"
| "apply_op v (DoubleClick e container) = onDoubleClick e container v"
| "apply_op v (KeyDown e hasPrevious hasNext) = handleKeyDown e hasPrevious hasNext v"
| "apply_op v ContainerClick = handleContainerClick v"
| "apply_op v ImageClick = handleImageClick v"

definition run_ops :: "viewer \<Rightarrow> viewer_op list \<Rightarrow> viewer" where
  "run_ops v ops = foldl apply_op v ops"

text \<open>
  The invariant of the data model: the scale is a finite number in
  \<open>[MIN_SCALE, MAX_SCALE]\<close>, and the translation is the origin whenever the scale is at
  most 1.
\<close>

definition transform_ok :: "viewer \<Rightarrow> bool" where
  "transform_ok v =
     (case scale v of
        Num s \<Rightarrow> MIN_SCALE \<le> s \<and> s \<le> MAX_SCALE \<and> (s \<le> 1 \<longrightarrow> position v = (Num 0, Num 0))
      | _ \<Rightarrow> False)"

text \<open>
  A two-finger move is degenerate when both touch points coincide while the last recorded
  distance is \<open>0\<close>: that frame divides \<open>0\<close> by \<open>0\<close>.
\<close>

fun degenerate :: "viewer \<Rightarrow> viewer_op \<Rightarrow> bool" where
  "degenerate v (TouchMove [t1, t2] (Some r)) =
     (Math_hypot (touch_clientX t1 - touch_clientX t2) (touch_clientY t1 - touch_clientY t2) = 0
      \<and> lastTouchDistance v = 0)"
| "degenerate v _ = False"

fun no_degenerate_frame :: "viewer \<Rightarrow> viewer_op list \<Rightarrow> bool" where
  "no_degenerate_frame v [] = True"
| "no_degenerate_frame v (a # ops) = (\<not> degenerate v a \<and> no_degenerate_frame (apply_op v a) ops)"


section \<open>DOM elements, timers and posted messages\<close>

text \<open>
  An element is a \<open>node\<close>: \<open>ident\<close> stands for the identity of the object (what a
  \<open>Map<Element, _>\<close> compares), \<open>parentElement\<close> is its parent. \<open>closest\<close> is
  \<open>Element.closest\<close> for a selector given as a predicate: the element itself or its nearest
  ancestor that matches.
\<close>

fun closest :: "(node \<Rightarrow> bool) \<Rightarrow> node \<Rightarrow> node option" where
  "closest sel (Node i n cs as s h p) =
     (if sel (Node i n cs as s h p) then Some (Node i n cs as s h p)
      else case p of None \<Rightarrow> None | Some q \<Rightarrow> closest sel q)"

definition getAttribute :: "node \<Rightarrow> string \<Rightarrow> string option" where
  "getAttribute n name = map_of (attributes n) name"

text \<open>The selectors of the handlers.\<close>

definition sel_table :: "node \<Rightarrow> bool" where
  "sel_table n = (localName n = ''table'')"

definition sel_sup_a_audio_video :: "node \<Rightarrow> bool" where
  "sel_sup_a_audio_video n = (localName n \<in> {''sup'', ''a'', ''audio'', ''video''})"

definition sel_duokan_footnote_without_href :: "node \<Rightarrow> bool" where
  "sel_duokan_footnote_without_href n =
     (localName n = ''a'' \<and> ''duokan-footnote'' \<in> set (classList n) \<and> getAttribute n ''href'' = None)"

definition sel_footnote :: "node \<Rightarrow> bool" where
  "sel_footnote n =
     (''js_readerFooterNote'' \<in> set (classList n) \<or> ''zhangyue-footnote'' \<in> set (classList n)
      \<or> ''duokan-footnote'' \<in> set (classList n))"

text \<open>
  The messages the handlers hand to \<open>window.postMessage\<close> (and, for the footnote popup, to
  \<open>eventDispatcher.dispatch\<close>), in the order they are sent. The geometry of a mouse event
  is its screen, client and offset position.
\<close>

type_synonym geometry = "(real \<times> real) \<times> (real \<times> real) \<times> (real \<times> real)"

definition geometry_of :: "'a mouse_event_scheme \<Rightarrow> geometry" where
  "geometry_of e = ((screenX e, screenY e), (clientX e, clientY e), (offsetX e, offsetY e))"

datatype message =
    Iframe_keydown string keyboard_state
  | Iframe_keyup string keyboard_state
  | Iframe_mousedown string int geometry keyboard_state
  | Iframe_mouseup string int geometry keyboard_state
  | Iframe_double_click string geometry keyboard_state
  | Iframe_single_click string geometry keyboard_state
  | Footnote_popup string node string
  | Iframe_long_press_image string string
  | Iframe_long_press_table string string

text \<open>
  The window: its pending one-shot timers, in the order \<open>setTimeout\<close> created them, the next
  timer handle (handles are positive and never reused) and the messages posted so far. A
  timer holds its callback as data; \<open>due\<close> is the time at which it elapses, in milliseconds.
\<close>

record 'cb timer =
  timer_id :: nat
  due :: int
  callback :: 'cb

record 'cb window =
  timers :: "'cb timer list"
  nextTimerId :: nat
  posted :: "message list"

definition setTimeout ::
  "'cb \<Rightarrow> int \<Rightarrow> int \<Rightarrow> ('cb, 'z) window_scheme \<Rightarrow> nat \<times> ('cb, 'z) window_scheme" where
  "setTimeout cb delay now w =
     (nextTimerId w,
      w\<lparr>timers := timers w @ [\<lparr>timer_id = nextTimerId w, due = now + delay, callback = cb\<rparr>],
        nextTimerId := nextTimerId w + 1\<rparr>)"

text \<open>\<open>clearTimeout\<close> of \<open>undefined\<close> or of a handle that is no longer pending does nothing.\<close>

definition clearTimeout :: "nat option \<Rightarrow> ('cb, 'z) window_scheme \<Rightarrow> ('cb, 'z) window_scheme" where
  "clearTimeout handle w =
     (case handle of
        None \<Rightarrow> w
      | Some i \<Rightarrow> w\<lparr>timers := filter (\<lambda>t. timer_id t \<noteq> i) (timers w)\<rparr>)"

definition postMessage :: "message \<Rightarrow> ('cb, 'z) window_scheme \<Rightarrow> ('cb, 'z) window_scheme" where
  "postMessage m w = w\<lparr>posted := posted w @ [m]\<rparr>"

section \<open>The iframe event handlers: keyboard state, long hold and click disambiguation\<close>

text \<open>
  \<open>DOUBLE_CLICK_INTERVAL_THRESHOLD_MS\<close> and \<open>LONG_HOLD_THRESHOLD\<close> are imported from the
  constants module; the handlers take them as parameters. \<open>handleWheel\<close> and the three touch
  handlers of the module only post a message and read nothing but the keyboard state;
  they are left out. \<open>preventDefault\<close> acts on the event alone and is not modelled.
\<close>

record constants =
  DOUBLE_CLICK_INTERVAL_THRESHOLD_MS :: int
  LONG_HOLD_THRESHOLD :: int

text \<open>The two callbacks the module passes to \<open>setTimeout\<close>, with what their closures capture.\<close>

datatype callback =
    ClearLongHold
  | DeferredSingleClick string mouse_event

text \<open>
  The module-level variables \<open>lastClickTime\<close>, \<open>longHoldTimeout\<close> and \<open>keyboardState\<close>, on top
  of the window. There is one of each for the whole module, whatever the \<open>bookKey\<close>.
\<close>

record module_state = "callback window" +
  lastClickTime :: int
  longHoldTimeout :: "nat option"
  keyboardState :: keyboard_state

definition initial_module :: module_state where
  "initial_module =
     \<lparr>timers = [], nextTimerId = 1, posted = [],
      lastClickTime = 0, longHoldTimeout = None,
      keyboardState = \<lparr>ctrlKey = False, shiftKey = False, altKey = False, metaKey = False,
                        key = [], code = []\<rparr>\<rparr>"

definition getKeyStatus :: "module_state \<Rightarrow> 'a modifiers_scheme option \<Rightarrow> keyboard_state" where
  "getKeyStatus st event =
     (case event of
        Some e \<Rightarrow>
          \<lparr>ctrlKey = ctrlKey e, shiftKey = shiftKey e, altKey = altKey e, metaKey = metaKey e,
           key = key (keyboardState st), code = code (keyboardState st)\<rparr>
      | None \<Rightarrow> keyboardState st)"

definition handleKeydown :: "string \<Rightarrow> keyboard_state \<Rightarrow> module_state \<Rightarrow> module_state" where
  "handleKeydown bookKey event st = postMessage (Iframe_keydown bookKey event) (st\<lparr>keyboardState := event\<rparr>)"

definition handleKeyup :: "string \<Rightarrow> keyboard_state \<Rightarrow> module_state \<Rightarrow> module_state" where
  "handleKeyup bookKey event st =
     postMessage (Iframe_keyup bookKey event) (st\<lparr>keyboardState := event\<lparr>key := [], code := []\<rparr>\<rparr>)"

definition handleMousedown :: "constants \<Rightarrow> int \<Rightarrow> string \<Rightarrow> mouse_event \<Rightarrow> module_state \<Rightarrow> module_state" where
  "handleMousedown c now bookKey event st =
     (let (handle, st1) = setTimeout ClearLongHold (LONG_HOLD_THRESHOLD c) now st;
          st2 = st1\<lparr>longHoldTimeout := Some handle\<rparr>
      in postMessage
           (Iframe_mousedown bookKey (button event) (geometry_of event) (getKeyStatus st2 (Some event)))
           st2)"

definition handleMouseup :: "string \<Rightarrow> mouse_event \<Rightarrow> module_state \<Rightarrow> module_state" where
  "handleMouseup bookKey event st =
     postMessage
       (Iframe_mouseup bookKey (button event) (geometry_of event) (getKeyStatus st (Some event))) st"

text \<open>\<open>element?.closest(sel)\<close> on a target that may be null.\<close>

definition closest_opt :: "(node \<Rightarrow> bool) \<Rightarrow> node option \<Rightarrow> node option" where
  "closest_opt sel element = (case element of None \<Rightarrow> None | Some n \<Rightarrow> closest sel n)"

text \<open>The first non-empty string of a chain \<open>a || b || ... || ''\<close>.\<close>

fun first_truthy :: "string option list \<Rightarrow> string" where
  "first_truthy [] = []"
| "first_truthy (None # rest) = first_truthy rest"
| "first_truthy (Some s # rest) = (if s = [] then first_truthy rest else s)"

definition postSingleClick :: "string \<Rightarrow> mouse_event \<Rightarrow> module_state \<Rightarrow> module_state" where
  "postSingleClick bookKey event st =
     (let element = target event
      in if closest_opt sel_sup_a_audio_video element \<noteq> None
            \<and> closest_opt sel_duokan_footnote_without_href element = None
         then st
         else case closest_opt sel_footnote element of
           Some footnote \<Rightarrow>
             postMessage
               (Footnote_popup bookKey footnote
                  (first_truthy
                     [getAttribute footnote ''data-wr-footernote'',
                      getAttribute footnote ''zy-footnote'',
                      getAttribute footnote ''alt'',
                      (case element of None \<Rightarrow> None | Some n \<Rightarrow> getAttribute n ''alt'')]))
               st
         | None \<Rightarrow>
             if longHoldTimeout st = None then st
             else postMessage
                    (Iframe_single_click bookKey (geometry_of event) (getKeyStatus st (Some event)))
                    st)"

text \<open>
  \<open>handleClick\<close> at time \<open>now = Date.now()\<close>; \<open>doubleClickDisabled\<close> is the value of the ref
  at the click.
\<close>

definition handleClick ::
  "constants \<Rightarrow> int \<Rightarrow> string \<Rightarrow> bool \<Rightarrow> mouse_event \<Rightarrow> module_state \<Rightarrow> module_state" where
  "handleClick c now bookKey doubleClickDisabled event st =
     (if \<not> doubleClickDisabled \<and> now - lastClickTime st < DOUBLE_CLICK_INTERVAL_THRESHOLD_MS c
      then postMessage
             (Iframe_double_click bookKey (geometry_of event) (getKeyStatus st (Some event)))
             (st\<lparr>lastClickTime := now\<rparr>)
      else (let st1 = st\<lparr>lastClickTime := now\<rparr>
            in if \<not> doubleClickDisabled
               then snd (setTimeout (DeferredSingleClick bookKey event)
                           (DOUBLE_CLICK_INTERVAL_THRESHOLD_MS c) now st1)
               else postSingleClick bookKey event st1))"

text \<open>What a timer's callback does when it runs at time \<open>now\<close>.\<close>

fun runCallback :: "constants \<Rightarrow> int \<Rightarrow> callback \<Rightarrow> module_state \<Rightarrow> module_state" where
  "runCallback c now ClearLongHold st = st\<lparr>longHoldTimeout := None\<rparr>"
| "runCallback c now (DeferredSingleClick bookKey event) st =
     (if now - lastClickTime st \<ge> DOUBLE_CLICK_INTERVAL_THRESHOLD_MS c
      then postSingleClick bookKey event st else st)"

datatype input =
    Keydown string keyboard_state
  | Keyup string keyboard_state
  | Mousedown string mouse_event
  | Mouseup string mouse_event
  | Click string bool mouse_event

fun deliver :: "constants \<Rightarrow> int \<Rightarrow> input \<Rightarrow> module_state \<Rightarrow> module_state" where
  "deliver c now (Keydown bookKey e) st = handleKeydown bookKey e st"
| "deliver c now (Keyup bookKey e) st = handleKeyup bookKey e st"
| "deliver c now (Mousedown bookKey e) st = handleMousedown c now bookKey e st"
| "deliver c now (Mouseup bookKey e) st = handleMouseup bookKey e st"
| "deliver c now (Click bookKey disabled e) st = handleClick c now bookKey disabled e st"

text \<open>
  The event loop, one step at a time: at time \<open>now\<close> either an input is delivered to its
  handler, or the pending timer with handle \<open>i\<close> runs its callback and is then removed from
  the pending timers. A timer never runs before it is due; a step that asks for it does
  nothing.
\<close>

datatype step =
    Deliver input
  | Fire nat

fun do_step :: "constants \<Rightarrow> int \<Rightarrow> step \<Rightarrow> module_state \<Rightarrow> module_state" where
  "do_step c now (Deliver i) st = deliver c now i st"
| "do_step c now (Fire i) st =
     (case filter (\<lambda>t. timer_id t = i \<and> due t \<le> now) (timers st) of
        [] \<Rightarrow> st
      | t # _ \<Rightarrow> clearTimeout (Some i) (runCallback c now (callback t) st))"

definition exec :: "constants \<Rightarrow> (int \<times> step) list \<Rightarrow> module_state \<Rightarrow> module_state" where
  "exec c steps st = foldl (\<lambda>s (now, a). do_step c now a s) st steps"

text \<open>
  Timers that elapse on time: \<open>fire_due c T\<close> runs every pending timer that is due at or
  before \<open>T\<close>, each at its own due time, earliest first and in creation order among equals.
  No callback of this module creates or clears a timer, so the timers to run are known
  beforehand. \<open>run\<close> delivers time-stamped inputs in order, each after the timers due by
  then.
\<close>

definition fire_due :: "constants \<Rightarrow> int \<Rightarrow> module_state \<Rightarrow> module_state" where
  "fire_due c T st =
     foldl (\<lambda>s t. do_step c (due t) (Fire (timer_id t)) s) st
       (sort_key due (filter (\<lambda>t. due t \<le> T) (timers st)))"

definition run :: "constants \<Rightarrow> (int \<times> input) list \<Rightarrow> module_state \<Rightarrow> module_state" where
  "run c inputs st = foldl (\<lambda>s (now, i). deliver c now i (fire_due c now s)) st inputs"

text \<open>
  The long-hold timer is armed when the handle in \<open>longHoldTimeout\<close> is that of a pending
  timer whose callback clears it. \<open>mousedown_times\<close> lists the times of the mouse-downs of a
  sequence of steps.
\<close>

definition long_hold_armed :: "module_state \<Rightarrow> bool" where
  "long_hold_armed st =
     (\<exists>t \<in> set (timers st). callback t = ClearLongHold \<and> longHoldTimeout st = Some (timer_id t))"

fun mousedown_times :: "(int \<times> step) list \<Rightarrow> int list" where
  "mousedown_times [] = []"
| "mousedown_times ((now, Deliver (Mousedown bookKey e)) # steps) = now # mousedown_times steps"
| "mousedown_times (a # steps) = mousedown_times steps"

text \<open>
  Timers elapse on time in a sequence of steps when no step happens while a pending timer
  is overdue: a timer runs at its due time, before anything later.
\<close>

fun punctual :: "constants \<Rightarrow> (int \<times> step) list \<Rightarrow> module_state \<Rightarrow> bool" where
  "punctual c [] st = True"
| "punctual c ((now, a) # rest) st =
     ((\<forall>t \<in> set (timers st). now \<le> due t) \<and> punctual c rest (do_step c now a st))"

text \<open>
  A click target passes the checks of \<open>postSingleClick\<close> when it is neither excluded (inside
  a superscript, link, audio or video element that is not a footnote link without
  \<open>href\<close>) nor inside a footnote container.
\<close>

definition passes_target_checks :: "node option \<Rightarrow> bool" where
  "passes_target_checks element =
     (\<not> (closest_opt sel_sup_a_audio_video element \<noteq> None
          \<and> closest_opt sel_duokan_footnote_without_href element = None)
      \<and> closest_opt sel_footnote element = None)"

text \<open>Retagging: the same message, callback, input or state with every \<open>bookKey\<close> set to \<open>k\<close>.\<close>

fun retag_message :: "string \<Rightarrow> message \<Rightarrow> message" where
  "retag_message k (Iframe_keydown b ks) = Iframe_keydown k ks"
| "retag_message k (Iframe_keyup b ks) = Iframe_keyup k ks"
| "retag_message k (Iframe_mousedown b n g ks) = Iframe_mousedown k n g ks"
| "retag_message k (Iframe_mouseup b n g ks) = Iframe_mouseup k n g ks"
| "retag_message k (Iframe_double_click b g ks) = Iframe_double_click k g ks"
| "retag_message k (Iframe_single_click b g ks) = Iframe_single_click k g ks"
| "retag_message k (Footnote_popup b n s) = Footnote_popup k n s"
| "retag_message k (Iframe_long_press_image b s) = Iframe_long_press_image k s"
| "retag_message k (Iframe_long_press_table b s) = Iframe_long_press_table k s"

fun retag_callback :: "string \<Rightarrow> callback \<Rightarrow> callback" where
  "retag_callback k ClearLongHold = ClearLongHold"
| "retag_callback k (DeferredSingleClick b e) = DeferredSingleClick k e"

fun retag_input :: "string \<Rightarrow> input \<Rightarrow> input" where
  "retag_input k (Keydown b e) = Keydown k e"
| "retag_input k (Keyup b e) = Keyup k e"
| "retag_input k (Mousedown b e) = Mousedown k e"
| "retag_input k (Mouseup b e) = Mouseup k e"
| "retag_input k (Click b disabled e) = Click k disabled e"

definition retag_state :: "string \<Rightarrow> module_state \<Rightarrow> module_state" where
  "retag_state k st =
     st\<lparr>timers := map (\<lambda>t. t\<lparr>callback := retag_callback k (callback t)\<rparr>) (timers st),
        posted := map (retag_message k) (posted st)\<rparr>"

section \<open>The long-press tracker (addLongPressListeners)\<close>

definition longPressDuration :: int where "longPressDuration = 500"
definition moveThreshold :: real where "moveThreshold = 10"

text \<open>
  The events the listeners receive on an element: a mouse event with its client position
  (the test \<open>'clientX' in event\<close> holds) or a touch event with its list \<open>touches\<close>. The
  target of such an event is never null.
\<close>

datatype press_event =
    PressMouse node real real
  | PressTouch node "touch list"

fun press_target :: "press_event \<Rightarrow> node" where
  "press_target (PressMouse n cx cy) = n"
| "press_target (PressTouch n touches) = n"

text \<open>The timer callback \<open>() => handleLongPress(event, elementToTrack)\<close>.\<close>

datatype press_callback = LongPress press_event node

text \<open>
  The closure of one call of \<open>addLongPressListeners\<close>: the two maps, keyed by element
  identity and kept in insertion order as a \<open>Map\<close> keeps them, whether the mutation
  observer is connected, and the elements that carry the listeners (the ones marked
  \<open>data-long-press-added\<close>).
\<close>

record tracker_state = "press_callback window" +
  pressTimers :: "(nat \<times> nat) list"
  pressStartPositions :: "(nat \<times> real \<times> real) list"
  observing :: bool
  instrumented :: "nat set"

text \<open>
  \<open>doc.getSelection()\<close> at the moment the timer fires: \<open>None\<close> when it is null, else the
  selection's \<open>toString()\<close>.
\<close>

definition handleLongPress :: "string \<Rightarrow> string option \<Rightarrow> node \<Rightarrow> tracker_state \<Rightarrow> tracker_state" where
  "handleLongPress bookKey selection target_el st =
     (if (case selection of None \<Rightarrow> False | Some text \<Rightarrow> 0 < length text) then st
      else if localName target_el = ''img'' then
        postMessage (Iframe_long_press_image bookKey (src target_el)) st
      else if localName target_el = ''table'' \<or> closest sel_table target_el \<noteq> None then
        (case (if localName target_el = ''table'' then Some target_el
               else closest sel_table target_el) of
           Some tableTarget \<Rightarrow> postMessage (Iframe_long_press_table bookKey (outerHTML tableTarget)) st
         | None \<Rightarrow> st)
      else st)"

text \<open>
  The element the three listeners track for a target: the image itself, or the table the
  target is or lies in; \<open>None\<close> when the listener returns at once.
\<close>

definition elementToTrack :: "node \<Rightarrow> node option" where
  "elementToTrack target_el =
     (let isImage = (localName target_el = ''img'');
          isTableOrInTable = (localName target_el = ''table'' \<or> closest sel_table target_el \<noteq> None)
      in if \<not> isImage \<and> \<not> isTableOrInTable then None
         else if isImage then Some target_el
         else if localName target_el = ''table'' then Some target_el
         else closest sel_table target_el)"

definition startPress :: "int \<Rightarrow> press_event \<Rightarrow> tracker_state \<Rightarrow> tracker_state" where
  "startPress now event st =
     (case elementToTrack (press_target event) of
        None \<Rightarrow> st
      | Some el \<Rightarrow>
          (let st1 = (case event of
                        PressMouse n cx cy \<Rightarrow>
                          st\<lparr>pressStartPositions :=
                               AList.update (ident el) (cx, cy) (pressStartPositions st)\<rparr>
                      | PressTouch n touches \<Rightarrow>
                          (case touches of
                             [] \<Rightarrow> st
                           | t # _ \<Rightarrow>
                               st\<lparr>pressStartPositions :=
                                    AList.update (ident el) (touch_clientX t, touch_clientY t)
                                      (pressStartPositions st)\<rparr>));
               st2 = clearTimeout (map_of (pressTimers st1) (ident el)) st1;
               (timer, st3) = setTimeout (LongPress event el) longPressDuration now st2
           in st3\<lparr>pressTimers := AList.update (ident el) timer (pressTimers st3)\<rparr>))"

text \<open>
  \<open>currentX\<close> and \<open>currentY\<close> of \<open>handleMove\<close>: the pointer's client position, the first touch
  point's, or \<open>(0, 0)\<close> when a touch event has no touch point.
\<close>

fun current_position :: "press_event \<Rightarrow> real \<times> real" where
  "current_position (PressMouse n cx cy) = (cx, cy)"
| "current_position (PressTouch n []) = (0, 0)"
| "current_position (PressTouch n (t # rest)) = (touch_clientX t, touch_clientY t)"

definition handleMove :: "press_event \<Rightarrow> tracker_state \<Rightarrow> tracker_state" where
  "handleMove event st =
     (case elementToTrack (press_target event) of
        None \<Rightarrow> st
      | Some el \<Rightarrow>
          (case map_of (pressStartPositions st) (ident el) of
             None \<Rightarrow> st
           | Some (startX, startY) \<Rightarrow>
               (let (currentX, currentY) = current_position event;
                    distance = sqrt ((currentX - startX)\<^sup>2 + (currentY - startY)\<^sup>2)
                in if moveThreshold < distance
                   then (clearTimeout (map_of (pressTimers st) (ident el)) st)
                          \<lparr>pressTimers := AList.delete (ident el) (pressTimers st),
                           pressStartPositions := AList.delete (ident el) (pressStartPositions st)\<rparr>
                   else st)))"

definition cancelPress :: "press_event \<Rightarrow> tracker_state \<Rightarrow> tracker_state" where
  "cancelPress event st =
     (case elementToTrack (press_target event) of
        None \<Rightarrow> st
      | Some el \<Rightarrow>
          (clearTimeout (map_of (pressTimers st) (ident el)) st)
            \<lparr>pressTimers := AList.delete (ident el) (pressTimers st),
             pressStartPositions := AList.delete (ident el) (pressStartPositions st)\<rparr>)"

text \<open>
  \<open>processElements\<close> over the elements of the document: every image and table that does
  not carry the attribute \<open>data-long-press-added\<close> gets the mark and the seven listeners.
  The marks this closure sets are the set \<open>instrumented\<close>; the \<open>attributes\<close> of a node are
  the ones it had before, so an element that came with the mark is skipped.
\<close>

definition hasAttribute :: "node \<Rightarrow> string \<Rightarrow> bool" where
  "hasAttribute n name = (getAttribute n name \<noteq> None)"

definition processElements :: "node list \<Rightarrow> tracker_state \<Rightarrow> tracker_state" where
  "processElements doc st =
     (let images = filter (\<lambda>img. \<not> hasAttribute img ''data-long-press-added'')
                     (filter (\<lambda>n. localName n = ''img'') doc);
          tables = filter (\<lambda>table. \<not> hasAttribute table ''data-long-press-added'')
                     (filter (\<lambda>n. localName n = ''table'') doc)
      in st\<lparr>instrumented := instrumented st \<union> set (map ident images) \<union> set (map ident tables)\<rparr>)"

definition addLongPressListeners :: "node list \<Rightarrow> tracker_state" where
  "addLongPressListeners doc =
     (processElements doc
        \<lparr>timers = [], nextTimerId = 1, posted = [],
         pressTimers = [], pressStartPositions = [], observing = False, instrumented = {}\<rparr>)
     \<lparr>observing := True\<rparr>"

text \<open>The callback of the mutation observer, which runs only while it is connected.\<close>

definition mutationCallback :: "bool \<Rightarrow> node list \<Rightarrow> tracker_state \<Rightarrow> tracker_state" where
  "mutationCallback hasNewElements doc st =
     (if observing st \<and> hasNewElements then processElements doc st else st)"

text \<open>The function \<open>addLongPressListeners\<close> returns.\<close>

definition teardown :: "tracker_state \<Rightarrow> tracker_state" where
  "teardown st =
     foldl (\<lambda>s (el, timer). clearTimeout (Some timer) s) (st\<lparr>observing := False\<rparr>) (pressTimers st)"

text \<open>
  Dispatch. A bubbling event reaches the listeners of its target and of the target's
  ancestors, innermost first; \<open>mouseleave\<close> does not bubble. The listeners sit on the
  instrumented elements, and every one of them calls the same handler with the same
  event.
\<close>

fun path :: "node \<Rightarrow> node list" where
  "path (Node i n cs as s h p) =
     Node i n cs as s h p # (case p of None \<Rightarrow> [] | Some q \<Rightarrow> path q)"

definition listeners :: "tracker_state \<Rightarrow> node list \<Rightarrow> nat" where
  "listeners st nodes = length (filter (\<lambda>n. ident n \<in> instrumented st) nodes)"

datatype tracker_input =
    On_mousedown press_event
  | On_mousemove press_event
  | On_mouseup press_event
  | On_mouseleave press_event
  | On_touchstart press_event
  | On_touchmove press_event
  | On_touchend press_event
  | Mutation bool "node list"
  | Timer_fires nat "string option"
  | Teardown

text \<open>
  One step at time \<open>now\<close>. \<open>Timer_fires i selection\<close> is timer \<open>i\<close> running its callback,
  which it does once, at or after its due time, if it is still pending; the input gives
  the document's selection at that moment.
\<close>

fun fire_press :: "string \<Rightarrow> int \<Rightarrow> nat \<Rightarrow> string option \<Rightarrow> tracker_state \<Rightarrow> tracker_state" where
  "fire_press bookKey now i selection st =
     (case filter (\<lambda>t. timer_id t = i \<and> due t \<le> now) (timers st) of
        [] \<Rightarrow> st
      | t # _ \<Rightarrow>
          (case callback t of
             LongPress event el \<Rightarrow>
               clearTimeout (Some i) (handleLongPress bookKey selection el st)))"

fun tracker_step :: "string \<Rightarrow> int \<Rightarrow> tracker_input \<Rightarrow> tracker_state \<Rightarrow> tracker_state" where
  "tracker_step bookKey now (On_mousedown e) st =
     ((startPress now e) ^^ listeners st (path (press_target e))) st"
| "tracker_step bookKey now (On_mousemove e) st =
     ((handleMove e) ^^ listeners st (path (press_target e))) st"
| "tracker_step bookKey now (On_mouseup e) st =
     ((cancelPress e) ^^ listeners st (path (press_target e))) st"
| "tracker_step bookKey now (On_mouseleave e) st =
     ((cancelPress e) ^^ listeners st [press_target e]) st"
| "tracker_step bookKey now (On_touchstart e) st =
     ((startPress now e) ^^ listeners st (path (press_target e))) st"
| "tracker_step bookKey now (On_touchmove e) st =
     ((handleMove e) ^^ listeners st (path (press_target e))) st"
| "tracker_step bookKey now (On_touchend e) st =
     ((cancelPress e) ^^ listeners st (path (press_target e))) st"
| "tracker_step bookKey now (Mutation hasNewElements doc) st = mutationCallback hasNewElements doc st"
| "tracker_step bookKey now (Timer_fires i selection) st = fire_press bookKey now i selection st"
| "tracker_step bookKey now Teardown st = teardown st"

definition tracker_run ::
  "string \<Rightarrow> (int \<times> tracker_input) list \<Rightarrow> tracker_state \<Rightarrow> tracker_state" where
  "tracker_run bookKey inputs st = foldl (\<lambda>s (now, i). tracker_step bookKey now i s) st inputs"

section \<open>Invariants\<close>

text \<open>
  What the proofs below maintain. For the viewer: the transform invariant, and a zoom
  speed that is a number. For the module: timer handles are fresh and distinct, a set
  long-hold handle is that of a pending long-hold timer, and every pending long-hold
  timer was created by a mouse-down, \<open>LONG_HOLD_THRESHOLD\<close> before it is due. For the
  tracker: handles are fresh, the press-timer map has one entry per element, and every
  pending timer is registered in it. A handle is \<open>gone\<close> when it has been given out and is
  no longer pending.
\<close>

definition viewer_inv :: "viewer \<Rightarrow> bool" where
  "viewer_inv v = (transform_ok v \<and> zoomSpeed v \<noteq> NaN)"

definition module_inv :: "constants \<Rightarrow> (int \<times> step) list \<Rightarrow> module_state \<Rightarrow> bool" where
  "module_inv c steps st =
     ((\<forall>t \<in> set (timers st). timer_id t < nextTimerId st)
      \<and> distinct (map timer_id (timers st))
      \<and> (longHoldTimeout st \<noteq> None \<longrightarrow> long_hold_armed st)
      \<and> (\<forall>t \<in> set (timers st). callback t = ClearLongHold \<longrightarrow>
            (\<exists>m \<in> set (mousedown_times steps). due t = m + LONG_HOLD_THRESHOLD c)))"

definition pending :: "nat \<Rightarrow> ('cb, 'z) window_scheme \<Rightarrow> bool" where
  "pending i w = (i \<in> timer_id ` set (timers w))"

definition tracker_inv :: "tracker_state \<Rightarrow> bool" where
  "tracker_inv st =
     ((\<forall>t \<in> set (timers st). timer_id t < nextTimerId st)
      \<and> (\<forall>p \<in> set (pressTimers st). snd p < nextTimerId st)
      \<and> distinct (map fst (pressTimers st))
      \<and> (\<forall>t \<in> set (timers st). timer_id t \<in> snd ` set (pressTimers st)))"

definition gone :: "nat \<Rightarrow> tracker_state \<Rightarrow> bool" where
  "gone i st = (i < nextTimerId st \<and> \<not> pending i st)"

section \<open>Concrete inputs\<close>

text \<open>
  The inputs of the evaluated scenarios. \<open>sample_constants\<close> takes 250 and 500 milliseconds
  for the two imported constants; \<open>scenario_constants\<close> has the threshold of 300 of the
  specification's click scenario.
\<close>

definition sample_constants :: constants where
  "sample_constants = \<lparr>DOUBLE_CLICK_INTERVAL_THRESHOLD_MS = 250, LONG_HOLD_THRESHOLD = 500\<rparr>"

definition scenario_constants :: constants where
  "scenario_constants = \<lparr>DOUBLE_CLICK_INTERVAL_THRESHOLD_MS = 300, LONG_HOLD_THRESHOLD = 500\<rparr>"

definition click_at :: "real \<Rightarrow> real \<Rightarrow> mouse_event" where
  "click_at px py =
     \<lparr>ctrlKey = False, shiftKey = False, altKey = False, metaKey = False,
      target = None, button = 0, screenX = px, screenY = py, clientX = px, clientY = py,
      offsetX = px, offsetY = py\<rparr>"

definition no_keys :: keyboard_state where
  "no_keys = \<lparr>ctrlKey = False, shiftKey = False, altKey = False, metaKey = False, key = [], code = []\<rparr>"

definition coincident :: "touch list" where
  "coincident =
     [\<lparr>touch_clientX = 100, touch_clientY = 100\<rparr>, \<lparr>touch_clientX = 100, touch_clientY = 100\<rparr>]"

definition container0 :: rect where
  "container0 = \<lparr>rect_left = 0, rect_top = 0, rect_width = 800, rect_height = 600\<rparr>"




definition cover_image :: node where
  "cover_image = Node 1 ''img'' [] [] ''cover.png'' ''<img>'' None"

definition data_table :: node where
  "data_table = Node 2 ''table'' [] [] [] ''<table>1</table>'' None"

definition table_cell :: node where
  "table_cell = Node 3 ''td'' [] [] [] ''<td>1</td>'' (Some data_table)"

definition figure_table :: node where
  "figure_table = Node 5 ''table'' [] [] [] ''<table><tr><td><img></td></tr></table>'' None"

definition figure_row :: node where
  "figure_row = Node 8 ''tr'' [] [] [] ''<tr><td><img></td></tr>'' (Some figure_table)"

definition figure_cell :: node where
  "figure_cell = Node 6 ''td'' [] [] [] ''<td><img></td>'' (Some figure_row)"

definition figure_image :: node where
  "figure_image = Node 7 ''img'' [] [] ''chart.png'' ''<img>'' (Some figure_cell)"

definition pressed_image :: tracker_state where
  "pressed_image =
     tracker_run ''book'' [(0, On_mousedown (PressMouse cover_image 100 100))]
       (addLongPressListeners [cover_image])"


section \<open>Facts used by several properties\<close>

lemmas scenario_defs = sample_constants_def scenario_constants_def click_at_def no_keys_def
  initial_module_def geometry_of_def getKeyStatus_def

lemmas loop_defs = run_def fire_due_def handleClick_def handleMousedown_def postSingleClick_def
  setTimeout_def clearTimeout_def postMessage_def closest_opt_def Let_def

lemma handleClick_double:
  assumes "\<not> disabled" and "now - lastClickTime s < DOUBLE_CLICK_INTERVAL_THRESHOLD_MS c"
  shows "handleClick c now bookKey disabled e s =
         postMessage (Iframe_double_click bookKey (geometry_of e) (getKeyStatus s (Some e)))
           (s\<lparr>lastClickTime := now\<rparr>)"
  using assms by (simp add: handleClick_def)

lemma postSingleClick_passes:
  assumes "passes_target_checks (target e)"
  shows "postSingleClick bookKey e s =
           (if longHoldTimeout s = None then s
            else postMessage (Iframe_single_click bookKey (geometry_of e) (getKeyStatus s (Some e))) s)"
  using assms by (auto simp: passes_target_checks_def postSingleClick_def Let_def)

lemmas tracker_defs = tracker_run_def listeners_def addLongPressListeners_def processElements_def
  hasAttribute_def getAttribute_def
  startPress_def handleMove_def cancelPress_def elementToTrack_def handleLongPress_def teardown_def
  mutationCallback_def setTimeout_def clearTimeout_def postMessage_def sel_table_def
  longPressDuration_def Let_def cover_image_def data_table_def table_cell_def

section \<open>Anchor-preserving zoom\<close>

text \<open>
  The formula of \<open>getZoomedOffset\<close> in exact arithmetic. On finite arguments with both
  scales nonzero the result is \<open>tx' = ax - (ax - tx) * (s' / s)\<close> and
  \<open>ty' = ay - (ay - ty) * (s' / s)\<close>, and zooming from \<open>s\<close> to \<open>s'\<close> and back to \<open>s\<close> at the
  same anchor returns the translation it started from. This is a fact about the formula:
  the rounding of the four operations is not part of it.
\<close>

lemma getZoomedOffset_roundtrip:
  assumes "s \<noteq> 0" and "s' \<noteq> 0"
  shows "getZoomedOffset (Num ax) (Num ay) (Num s) (Num s') (Num tx, Num ty) =
           (Num (ax - (ax - tx) * (s' / s)), Num (ay - (ay - ty) * (s' / s)))
         \<and> getZoomedOffset (Num ax) (Num ay) (Num s') (Num s)
             (getZoomedOffset (Num ax) (Num ay) (Num s) (Num s') (Num tx, Num ty)) =
           (Num tx, Num ty)"
  using assms by (simp add: getZoomedOffset_def js_sub_def)

text \<open>
  Rounding to double precision: the rounded value is within half a unit in the last place,
  large values overflow to an infinity, tiny ones underflow to \<open>0\<close>, and a value with its
  leading bit known is rounded at that place: \<open>2 / 3\<close> is the double \<open>0.6666666666666666\<close>.
\<close>

lemma round_half_even_error: "\<bar>of_int (round_half_even x) - x\<bar> \<le> 1 / 2"
  by (auto simp: round_half_even_def Let_def)

lemma round_half_even_ge_floor: "\<lfloor>x\<rfloor> \<le> round_half_even x"
  by (simp add: round_half_even_def Let_def)

lemma round_half_even_small:
  assumes "\<bar>x\<bar> < 1 / 2"
  shows "round_half_even x = 0"
proof (cases "0 \<le> x")
  case True
  with assms have "\<lfloor>x\<rfloor> = 0" by (simp add: floor_eq_iff)
  with assms True show ?thesis by (simp add: round_half_even_def Let_def)
next
  case False
  with assms have "\<lfloor>x\<rfloor> = -1" by (simp add: floor_eq_iff)
  with assms False show ?thesis by (simp add: round_half_even_def Let_def)
qed

lemma round_half_even_of_int: "round_half_even (of_int n) = n"
  by (simp add: round_half_even_def Let_def)

lemma powr_floor_log_le:
  assumes "0 < (y::real)"
  shows "(2::real) powr of_int \<lfloor>log 2 y\<rfloor> \<le> y"
proof -
  have "2 powr of_int \<lfloor>log 2 y\<rfloor> \<le> 2 powr log 2 y"
    by (rule powr_mono) simp_all
  also have "\<dots> = y" using assms by simp
  finally show ?thesis .
qed

lemma ulp_le:
  assumes "x \<noteq> 0"
  shows "(2::real) powr of_int (ulp_exponent x) \<le> max \<bar>x\<bar> (2 powr (- 1022)) / 2 ^ 52"
proof -
  have split: "(2::real) powr of_int (k - 52) = 2 powr of_int k / 2 ^ 52" for k :: int
    by (simp add: powr_diff)
  show ?thesis
  proof (cases "- 1022 \<le> \<lfloor>log 2 \<bar>x\<bar>\<rfloor>")
    case True
    then have "ulp_exponent x = \<lfloor>log 2 \<bar>x\<bar>\<rfloor> - 52" by (simp add: ulp_exponent_def)
    then have "(2::real) powr of_int (ulp_exponent x) = 2 powr of_int \<lfloor>log 2 \<bar>x\<bar>\<rfloor> / 2 ^ 52"
      using split [of "\<lfloor>log 2 \<bar>x\<bar>\<rfloor>"] by simp
    also have "\<dots> \<le> \<bar>x\<bar> / 2 ^ 52"
      using assms by (intro divide_right_mono powr_floor_log_le) simp_all
    also have "\<dots> \<le> max \<bar>x\<bar> (2 powr (- 1022)) / 2 ^ 52"
      by (intro divide_right_mono) simp_all
    finally show ?thesis .
  next
    case False
    then have "ulp_exponent x = - 1022 - 52" by (simp add: ulp_exponent_def)
    then have "(2::real) powr of_int (ulp_exponent x) = 2 powr (- 1022) / 2 ^ 52"
      using split [of "- 1022"] by simp
    then show ?thesis by (simp add: divide_right_mono)
  qed
qed

lemma nearest_double_error:
  "\<bar>nearest_double x - x\<bar> \<le> (2::real) powr of_int (ulp_exponent x) / 2"
proof (cases "x = 0")
  case True
  then show ?thesis by (simp add: nearest_double_def)
next
  case False
  define p :: real where "p = 2 powr of_int (ulp_exponent x)"
  have p: "0 < p" by (simp add: p_def)
  have "nearest_double x - x = (of_int (round_half_even (x / p)) - x / p) * p"
    using False p by (simp add: nearest_double_def p_def algebra_simps)
  then have "\<bar>nearest_double x - x\<bar> = \<bar>of_int (round_half_even (x / p)) - x / p\<bar> * p"
    using p by (simp add: abs_mult)
  also have "\<dots> \<le> (1 / 2) * p"
    using p by (intro mult_right_mono round_half_even_error) simp
  finally show ?thesis by (simp add: p_def)
qed

lemma to_double_error:
  assumes "\<bar>x\<bar> \<le> M" and "1 \<le> M" and "M \<le> 2 ^ 100"
  obtains e where "to_double x = Num (x + e)" and "\<bar>e\<bar> \<le> M / 2 ^ 53"
proof -
  have tiny: "(2::real) powr (- 1022) \<le> 1"
    by (simp add: powr_minus divide_simps)
  have err: "\<bar>nearest_double x - x\<bar> \<le> M / 2 ^ 53"
  proof (cases "x = 0")
    case True
    with assms show ?thesis by (simp add: nearest_double_def)
  next
    case False
    have "max \<bar>x\<bar> (2 powr (- 1022)) \<le> M" using assms tiny by simp
    then have "max \<bar>x\<bar> (2 powr (- 1022)) / 2 ^ 52 \<le> M / 2 ^ 52" by (simp add: divide_right_mono)
    with ulp_le [OF False] have "(2::real) powr of_int (ulp_exponent x) \<le> M / 2 ^ 52" by linarith
    with nearest_double_error [of x] show ?thesis by simp
  qed
  have "M / 2 ^ 53 \<le> M" using assms by (simp add: divide_simps)
  with err assms have "\<bar>nearest_double x\<bar> \<le> 2 * 2 ^ 100" by linarith
  also have "\<dots> < (2::real) ^ 1024" by simp
  finally have "to_double x = Num (nearest_double x)"
    by (simp add: to_double_def Let_def abs_less_iff not_le)
  then have "to_double x = Num (x + (nearest_double x - x))" by simp
  from that [OF this err] show ?thesis .
qed

lemma to_double_overflow:
  assumes "2 ^ 1024 \<le> x"
  shows "to_double x = PosInfinity"
proof -
  have x: "0 < x" using assms by (rule less_le_trans [rotated]) simp
  define L where "L = \<lfloor>log 2 x\<rfloor>"
  define p :: real where "p = 2 powr of_int (L - 52)"
  have l: "log 2 ((2::real) ^ 1024) = 1024" by (subst log_nat_power) simp_all
  have "log 2 (2 ^ 1024) \<le> log 2 x" by (subst log_le_cancel_iff) (use assms x in simp_all)
  then have "(1024::real) \<le> log 2 x" unfolding l .
  then have L: "1024 \<le> L" unfolding L_def by (simp add: le_floor_iff)
  then have ue: "ulp_exponent x = L - 52" using x by (simp add: ulp_exponent_def L_def)
  have p: "0 < p" by (simp add: p_def)
  have pL: "2 ^ 52 * p = 2 powr of_int L" by (simp add: p_def powr_diff)
  have Lx: "2 powr of_int L \<le> x" unfolding L_def by (rule powr_floor_log_le [OF x])
  have "of_int (2 ^ 52) \<le> x / p" using pL Lx p by (simp add: pos_le_divide_eq)
  then have "2 ^ 52 \<le> \<lfloor>x / p\<rfloor>" by (simp only: le_floor_iff)
  with round_half_even_ge_floor [of "x / p"] have "2 ^ 52 \<le> round_half_even (x / p)" by linarith
  then have "(2::real) ^ 52 \<le> of_int (round_half_even (x / p))"
    by (metis of_int_le_iff of_int_numeral of_int_power)
  then have step: "2 ^ 52 * p \<le> of_int (round_half_even (x / p)) * p"
    using p by (intro mult_right_mono) simp_all
  have nd: "nearest_double x = of_int (round_half_even (x / p)) * p"
    using x by (simp add: nearest_double_def ue p_def)
  have "(2::real) powr of_int 1024 \<le> 2 powr of_int L"
    using L by (intro powr_mono) simp_all
  then have "(2::real) ^ 1024 \<le> 2 powr of_int L" by simp
  also have "\<dots> = 2 ^ 52 * p" by (simp only: pL)
  also note step
  finally have "2 ^ 1024 \<le> nearest_double x" by (simp only: nd)
  then show ?thesis by (simp add: to_double_def Let_def)
qed

lemma to_double_underflow:
  assumes "\<bar>x\<bar> < 1 / 2 ^ 1075"
  shows "to_double x = Num 0"
proof (cases "x = 0")
  case True
  then show ?thesis by (simp add: to_double_def nearest_double_def)
next
  case False
  then have ax: "0 < \<bar>x\<bar>" by simp
  have e: "(2::real) powr (- 1075) = 1 / 2 ^ 1075"
    by (simp add: powr_minus divide_simps)
  have l: "log 2 (1 / (2::real) ^ 1075) = - 1075"
    unfolding e [symmetric] by simp
  have "log 2 \<bar>x\<bar> < log 2 (1 / 2 ^ 1075)"
    by (subst log_less_cancel_iff) (use assms ax in simp_all)
  then have "log 2 \<bar>x\<bar> < - 1075" unfolding l .
  then have "\<lfloor>log 2 \<bar>x\<bar>\<rfloor> < - 1075" by (simp add: floor_less_iff)
  then have ue: "ulp_exponent x = - 1074" by (simp add: ulp_exponent_def)
  have p: "(2::real) powr (- 1074) = 1 / 2 ^ 1074"
    by (simp add: powr_minus divide_simps)
  have "\<bar>x / (1 / 2 ^ 1074)\<bar> = \<bar>x\<bar> * 2 ^ 1074" by (simp add: abs_mult)
  also have "\<dots> < (1 / 2 ^ 1075) * 2 ^ 1074" using assms by (intro mult_strict_right_mono) simp_all
  also have "\<dots> = 1 / 2" by simp
  finally have "round_half_even (x / (1 / 2 ^ 1074)) = 0" by (rule round_half_even_small)
  then have "nearest_double x = 0" using False by (simp add: nearest_double_def ue p)
  then show ?thesis by (simp add: to_double_def)
qed

lemma to_double_one: "to_double 1 = Num 1"
proof -
  have ue: "ulp_exponent 1 = - 52" by (simp add: ulp_exponent_def)
  have p: "(2::real) powr (- 52) = 1 / 2 ^ 52"
    by (simp add: powr_minus divide_simps)
  have "round_half_even (of_int (2 ^ 52)) = 2 ^ 52" by (rule round_half_even_of_int)
  then have "round_half_even (2 ^ 52) = 2 ^ 52" by simp
  then have "nearest_double 1 = 1" by (simp add: nearest_double_def ue p)
  then show ?thesis by (simp add: to_double_def)
qed

lemma fl_sub_Num:
  assumes "\<bar>a - b\<bar> \<le> M" and "1 \<le> M" and "M \<le> 2 ^ 100"
  obtains e where "fl_sub (Num a) (Num b) = Num (a - b + e)" and "\<bar>e\<bar> \<le> M / 2 ^ 53"
proof -
  from to_double_error [OF assms] obtain e where "to_double (a - b) = Num (a - b + e)"
    and "\<bar>e\<bar> \<le> M / 2 ^ 53" by blast
  then show ?thesis by (intro that [of e]) (simp_all add: fl_sub_def js_sub_def)
qed

lemma fl_mul_Num:
  assumes "\<bar>a * b\<bar> \<le> M" and "1 \<le> M" and "M \<le> 2 ^ 100"
  obtains e where "fl_mul (Num a) (Num b) = Num (a * b + e)" and "\<bar>e\<bar> \<le> M / 2 ^ 53"
proof -
  from to_double_error [OF assms] obtain e where "to_double (a * b) = Num (a * b + e)"
    and "\<bar>e\<bar> \<le> M / 2 ^ 53" by blast
  then show ?thesis by (intro that [of e]) (simp_all add: fl_mul_def)
qed

lemma fl_div_Num:
  assumes "b \<noteq> 0" and "\<bar>a / b\<bar> \<le> M" and "1 \<le> M" and "M \<le> 2 ^ 100"
  obtains e where "fl_div (Num a) (Num b) = Num (a / b + e)" and "\<bar>e\<bar> \<le> M / 2 ^ 53"
proof -
  from to_double_error [OF assms(2-4)] obtain e where "to_double (a / b) = Num (a / b + e)"
    and "\<bar>e\<bar> \<le> M / 2 ^ 53" by blast
  then show ?thesis using assms(1) by (intro that [of e]) (simp_all add: fl_div_def)
qed

lemma abs_mult_le:
  fixes x y :: real
  assumes "\<bar>x\<bar> \<le> X" and "\<bar>y\<bar> \<le> Y"
  shows "\<bar>x * y\<bar> \<le> X * Y"
  unfolding abs_mult using assms by (intro mult_mono) (auto intro: order_trans [OF abs_ge_zero])

lemma abs_sum4:
  fixes w x y z :: real
  assumes "\<bar>w\<bar> \<le> W" and "\<bar>x\<bar> \<le> X" and "\<bar>y\<bar> \<le> Y" and "\<bar>z\<bar> \<le> Z"
  shows "\<bar>- w - x - y + z\<bar> \<le> W + X + Y + Z"
  using assms unfolding abs_le_iff by linarith

lemma abs_sum6:
  fixes u v w x y z :: real
  assumes "\<bar>u\<bar> \<le> U" and "\<bar>v\<bar> \<le> V" and "\<bar>w\<bar> \<le> W" and "\<bar>x\<bar> \<le> X" and "\<bar>y\<bar> \<le> Y"
      and "\<bar>z\<bar> \<le> Z"
  shows "\<bar>u + v + w + x + y + z\<bar> \<le> U + V + W + X + Y + Z"
  using assms unfolding abs_le_iff by linarith

lemma abs_sum7:
  fixes u v w x y z s :: real
  assumes "\<bar>u\<bar> \<le> U" and "\<bar>v\<bar> \<le> V" and "\<bar>w\<bar> \<le> W" and "\<bar>x\<bar> \<le> X" and "\<bar>y\<bar> \<le> Y"
      and "\<bar>z\<bar> \<le> Z" and "\<bar>s\<bar> \<le> S"
  shows "\<bar>- u - v - w - x - y - z + s\<bar> \<le> U + V + W + X + Y + Z + S"
  using assms unfolding abs_le_iff by linarith

lemma coordinate_round_trip:
  fixes a t r r' e2 e6 :: real
  assumes a: "\<bar>a\<bar> \<le> 2 ^ 20" and t: "\<bar>t\<bar> \<le> 2 ^ 20"
      and rr: "r * r' = 1" and r: "\<bar>r\<bar> \<le> 16" and r': "\<bar>r'\<bar> \<le> 16"
      and e2: "\<bar>e2\<bar> \<le> 1 / 2 ^ 49" and e6: "\<bar>e6\<bar> \<le> 1 / 2 ^ 49"
  obtains x1 x2 where
      "fl_sub (Num a) (fl_mul (fl_sub (Num a) (Num t)) (Num (r + e2))) = Num x1"
      and "\<bar>x1 - (a - (a - t) * r)\<bar> \<le> 1 / 2 ^ 24"
      and "fl_sub (Num a) (fl_mul (fl_sub (Num a) (Num x1)) (Num (r' + e6))) = Num x2"
      and "\<bar>x2 - t\<bar> \<le> 1 / 2 ^ 19"
proof -
  have q: "\<bar>r + e2\<bar> \<le> 17" using r e2 by simp
  have q': "\<bar>r' + e6\<bar> \<le> 17" using r' e6 by simp
  have m1: "\<bar>a - t\<bar> \<le> 2 ^ 21" using a t by simp
  obtain e1 where f1: "fl_sub (Num a) (Num t) = Num (a - t + e1)" and e1: "\<bar>e1\<bar> \<le> 2 ^ 21 / 2 ^ 53"
    by (rule fl_sub_Num [OF m1]) simp_all
  define d1 where "d1 = a - t + e1"
  have d1: "\<bar>d1\<bar> \<le> 2 ^ 22" using m1 e1 by (simp add: d1_def)
  have m3: "\<bar>d1 * (r + e2)\<bar> \<le> 2 ^ 27"
    using abs_mult_le [OF d1 q] by simp
  obtain e3 where f3: "fl_mul (Num d1) (Num (r + e2)) = Num (d1 * (r + e2) + e3)"
      and e3: "\<bar>e3\<bar> \<le> 2 ^ 27 / 2 ^ 53"
    by (rule fl_mul_Num [OF m3]) simp_all
  define p where "p = d1 * (r + e2) + e3"
  have p: "\<bar>p\<bar> \<le> 2 ^ 27 + 1" using m3 e3 by (simp add: p_def)
  have m4: "\<bar>a - p\<bar> \<le> 2 ^ 28" using a p by simp
  obtain e4 where f4: "fl_sub (Num a) (Num p) = Num (a - p + e4)" and e4: "\<bar>e4\<bar> \<le> 2 ^ 28 / 2 ^ 53"
    by (rule fl_sub_Num [OF m4]) simp_all
  define x1 where "x1 = a - p + e4"
  have forth: "fl_sub (Num a) (fl_mul (fl_sub (Num a) (Num t)) (Num (r + e2))) = Num x1"
    by (simp add: f1 d1_def [symmetric] f3 p_def [symmetric] f4 x1_def)
  have b1: "\<bar>(a - t) * e2\<bar> \<le> 2 ^ 21 * (1 / 2 ^ 49)" by (rule abs_mult_le [OF m1 e2])
  have b2: "\<bar>e1 * (r + e2)\<bar> \<le> 2 ^ 21 / 2 ^ 53 * 17" by (rule abs_mult_le [OF e1 q])
  have eq1: "x1 - (a - (a - t) * r) = - ((a - t) * e2) - e1 * (r + e2) - e3 + e4"
    by (simp add: x1_def p_def d1_def algebra_simps)
  have n1: "2 ^ 21 * (1 / 2 ^ 49) + 2 ^ 21 / 2 ^ 53 * 17 + 2 ^ 27 / 2 ^ 53 + 2 ^ 28 / 2 ^ 53 \<le> (1::real) / 2 ^ 24"
    by simp
  have near: "\<bar>x1 - (a - (a - t) * r)\<bar> \<le> 1 / 2 ^ 24"
    unfolding eq1 by (rule order_trans [OF abs_sum4 [OF b1 b2 e3 e4] n1])
  have m5: "\<bar>a - x1\<bar> \<le> 2 ^ 28" using p e4 by (simp add: x1_def)
  obtain e5 where f5: "fl_sub (Num a) (Num x1) = Num (a - x1 + e5)" and e5: "\<bar>e5\<bar> \<le> 2 ^ 28 / 2 ^ 53"
    by (rule fl_sub_Num [OF m5]) simp_all
  define d2 where "d2 = a - x1 + e5"
  have e54: "\<bar>e5 - e4\<bar> \<le> 2 ^ 29 / 2 ^ 53"
    using e4 e5 by (simp del: divide_le_eq_numeral1 le_divide_eq_numeral1)
  have c2: "\<bar>d1 * e2 * r'\<bar> \<le> 2 ^ 22 * (1 / 2 ^ 49) * 16"
    by (rule abs_mult_le [OF abs_mult_le [OF d1 e2] r'])
  have c3: "\<bar>e3 * r'\<bar> \<le> 2 ^ 27 / 2 ^ 53 * 16" by (rule abs_mult_le [OF e3 r'])
  have c4: "\<bar>p * e6\<bar> \<le> (2 ^ 27 + 1) * (1 / 2 ^ 49)" by (rule abs_mult_le [OF p e6])
  have c5: "\<bar>(e5 - e4) * (r' + e6)\<bar> \<le> 2 ^ 29 / 2 ^ 53 * 17" by (rule abs_mult_le [OF e54 q'])
  have unit: "d1 * r * r' = d1" using rr by (simp add: mult.assoc)
  have "p * r' = d1 * r * r' + d1 * e2 * r' + e3 * r'" by (simp add: p_def algebra_simps)
  then have pr: "p * r' = d1 + d1 * e2 * r' + e3 * r'" by (simp only: unit)
  have "d2 * (r' + e6) = p * r' + p * e6 + (e5 - e4) * (r' + e6)"
    by (simp add: d2_def x1_def algebra_simps)
  then have expand: "d2 * (r' + e6) = (a - t) + e1 + d1 * e2 * r' + e3 * r' + p * e6 + (e5 - e4) * (r' + e6)"
    by (simp only: pr d1_def)
  have n7: "2 ^ 21 + 2 ^ 21 / 2 ^ 53 + 2 ^ 22 * (1 / 2 ^ 49) * 16 + 2 ^ 27 / 2 ^ 53 * 16
             + (2 ^ 27 + 1) * (1 / 2 ^ 49) + 2 ^ 29 / 2 ^ 53 * 17 \<le> (2::real) ^ 22"
    by simp
  have m7: "\<bar>d2 * (r' + e6)\<bar> \<le> 2 ^ 22"
    unfolding expand by (rule order_trans [OF abs_sum6 [OF m1 e1 c2 c3 c4 c5] n7])
  obtain e7 where f7: "fl_mul (Num d2) (Num (r' + e6)) = Num (d2 * (r' + e6) + e7)"
      and e7: "\<bar>e7\<bar> \<le> 2 ^ 22 / 2 ^ 53"
    by (rule fl_mul_Num [OF m7]) simp_all
  define p2 where "p2 = d2 * (r' + e6) + e7"
  have m8: "\<bar>a - p2\<bar> \<le> 2 ^ 23" using a m7 e7 by (simp add: p2_def)
  obtain e8 where f8: "fl_sub (Num a) (Num p2) = Num (a - p2 + e8)" and e8: "\<bar>e8\<bar> \<le> 2 ^ 23 / 2 ^ 53"
    by (rule fl_sub_Num [OF m8]) simp_all
  define x2 where "x2 = a - p2 + e8"
  have backward: "fl_sub (Num a) (fl_mul (fl_sub (Num a) (Num x1)) (Num (r' + e6))) = Num x2"
    by (simp add: f5 d2_def [symmetric] f7 p2_def [symmetric] f8 x2_def)
  have eq2: "x2 - t = - e1 - d1 * e2 * r' - e3 * r' - p * e6 - (e5 - e4) * (r' + e6) - e7 + e8"
    unfolding x2_def p2_def expand by simp
  have n2: "2 ^ 21 / 2 ^ 53 + 2 ^ 22 * (1 / 2 ^ 49) * 16 + 2 ^ 27 / 2 ^ 53 * 16
              + (2 ^ 27 + 1) * (1 / 2 ^ 49) + 2 ^ 29 / 2 ^ 53 * 17 + 2 ^ 22 / 2 ^ 53 + 2 ^ 23 / 2 ^ 53
            \<le> (1::real) / 2 ^ 19"
    by simp
  have close: "\<bar>x2 - t\<bar> \<le> 1 / 2 ^ 19"
    unfolding eq2 by (rule order_trans [OF abs_sum7 [OF e1 c2 c3 c4 c5 e7 e8] n2])
  from forth near backward close show ?thesis by (rule that)
qed

lemma to_double_two_thirds: "to_double (2 / 3) = Num (6004799503160661 / 2 ^ 53)"
proof -
  have lo: "log 2 (1 / 2) \<le> log 2 (2 / 3 :: real)" by (subst log_le_cancel_iff) simp_all
  have hi: "log 2 (2 / 3 :: real) < log 2 1" by (subst log_less_cancel_iff) simp_all
  have half: "log 2 (1 / 2 :: real) = - 1" by (simp add: log_divide)
  from lo hi have "\<lfloor>log 2 (2 / 3 :: real)\<rfloor> = - 1"
    unfolding half by (simp add: floor_eq_iff)
  then have ue: "ulp_exponent (2 / 3) = - 53" by (simp add: ulp_exponent_def)
  have p: "(2::real) powr (- 53) = 1 / 2 ^ 53" by (simp add: powr_minus divide_simps)
  have "round_half_even (2 / 3 / (1 / 2 ^ 53)) = 6004799503160661"
    by (simp add: round_half_even_def Let_def)
  then have "nearest_double (2 / 3) = 6004799503160661 / 2 ^ 53"
    by (simp add: nearest_double_def ue p)
  then show ?thesis by (simp add: to_double_def)
qed

lemma to_double_eval:
  fixes n :: nat
  assumes lo: "2 ^ 52 \<le> \<bar>x\<bar> * 2 ^ n" and hi: "\<bar>x\<bar> * 2 ^ n < 2 ^ 53" and n: "n \<le> 1074"
  shows "to_double x = Num (of_int (round_half_even (x * 2 ^ n)) / 2 ^ n)"
proof -
  have x: "0 < \<bar>x\<bar>" using lo by (cases "x = 0") simp_all
  define k :: int where "k = 52 - int n"
  have pk: "(2::real) powr of_int k = 2 ^ 52 / 2 ^ n"
    by (simp add: k_def powr_diff powr_realpow)
  have pk1: "(2::real) powr of_int (k + 1) = 2 ^ 53 / 2 ^ n"
    by (simp add: k_def powr_diff powr_add powr_realpow)
  have "2 powr of_int k \<le> \<bar>x\<bar>" unfolding pk using lo by (simp add: pos_divide_le_eq)
  then have "log 2 (2 powr of_int k) \<le> log 2 \<bar>x\<bar>" using x by (subst log_le_cancel_iff) simp_all
  then have l1: "of_int k \<le> log 2 \<bar>x\<bar>" by simp
  have "\<bar>x\<bar> < 2 powr of_int (k + 1)" unfolding pk1 using hi by (simp add: pos_less_divide_eq)
  then have "log 2 \<bar>x\<bar> < log 2 (2 powr of_int (k + 1))" using x by (subst log_less_cancel_iff) simp_all
  then have l2: "log 2 \<bar>x\<bar> < of_int k + 1" by simp
  from l1 l2 have "\<lfloor>log 2 \<bar>x\<bar>\<rfloor> = k" by (simp add: floor_eq_iff)
  moreover have "- 1022 \<le> k" using n by (simp add: k_def)
  ultimately have ue: "ulp_exponent x = - int n" by (simp add: ulp_exponent_def k_def)
  have p: "(2::real) powr (- real n) = 1 / 2 ^ n"
    by (simp add: powr_minus powr_realpow divide_simps)
  have nd: "nearest_double x = of_int (round_half_even (x * 2 ^ n)) / 2 ^ n"
    using x by (simp add: nearest_double_def ue p)
  have "\<bar>of_int (round_half_even (x * 2 ^ n)) - x * 2 ^ n\<bar> \<le> 1 / 2" by (rule round_half_even_error)
  moreover have "\<bar>x * 2 ^ n\<bar> < 9007199254740992" using hi by (simp add: abs_mult)
  ultimately have "\<bar>of_int (round_half_even (x * 2 ^ n)) :: real\<bar> < 18014398509481984" by linarith
  then have "\<bar>of_int (round_half_even (x * 2 ^ n)) :: real\<bar> < 2 ^ 54" by simp
  then have "\<bar>nearest_double x\<bar> < 2 ^ 54 / 2 ^ n" unfolding nd by (simp add: divide_strict_right_mono)
  also have "\<dots> \<le> 2 ^ 54" by (simp add: divide_le_eq)
  also have "\<dots> < (2::real) ^ 1024" by simp
  finally have "to_double x = Num (nearest_double x)"
    by (simp add: to_double_def Let_def abs_less_iff not_le)
  then show ?thesis by (simp only: nd)
qed

text \<open>
  A round trip evaluated: at the anchor \<open>(10, 20)\<close>, from scale 3 to scale 5 and back, the
  translation \<open>(4, 6)\<close> goes to \<open>(0, -3.3333333333333357)\<close> and returns as
  \<open>(4, 5.999999999999998)\<close>, the doubles written here as fractions.
\<close>

lemma round_trip_is_inexact:
  "getZoomedOffset_double (Num 10) (Num 20) (Num 3) (Num 5) (Num 4, Num 6) =
     (Num 0, Num (- (469124961184427 / 140737488355328)))
   \<and> getZoomedOffset_double (Num 10) (Num 20) (Num 5) (Num 3)
       (Num 0, Num (- (469124961184427 / 140737488355328))) =
     (Num 4, Num (3377699720527871 / 562949953421312))"
proof -
  have q: "fl_div (Num 5) (Num 3) = Num (7505999378950827 / 4503599627370496)"
    by (simp add: fl_div_def) (subst to_double_eval [where n = 52], simp_all add: round_half_even_def Let_def)
  have dx: "fl_sub (Num 10) (Num 4) = Num 6"
    by (simp add: fl_sub_def js_sub_def) (subst to_double_eval [where n = 50], simp_all add: round_half_even_def Let_def)
  have px: "fl_mul (Num 6) (Num (7505999378950827 / 4503599627370496)) = Num 10"
    by (simp add: fl_mul_def) (subst to_double_eval [where n = 49], simp_all add: round_half_even_def Let_def)
  have x1: "fl_sub (Num 10) (Num 10) = Num 0"
    by (simp add: fl_sub_def js_sub_def to_double_def nearest_double_def)
  have dy: "fl_sub (Num 20) (Num 6) = Num 14"
    by (simp add: fl_sub_def js_sub_def) (subst to_double_eval [where n = 49], simp_all add: round_half_even_def Let_def)
  have py: "fl_mul (Num 14) (Num (7505999378950827 / 4503599627370496)) = Num (3283874728290987 / 140737488355328)"
    by (simp add: fl_mul_def) (subst to_double_eval [where n = 48], simp_all add: round_half_even_def Let_def)
  have y1: "fl_sub (Num 20) (Num (3283874728290987 / 140737488355328)) = Num (- (469124961184427 / 140737488355328))"
    by (simp add: fl_sub_def js_sub_def) (subst to_double_eval [where n = 51], simp_all add: round_half_even_def Let_def)
  have q2: "fl_div (Num 3) (Num 5) = Num (5404319552844595 / 9007199254740992)"
    by (simp add: fl_div_def) (subst to_double_eval [where n = 53], simp_all add: round_half_even_def Let_def)
  have dx2: "fl_sub (Num 10) (Num 0) = Num 10"
    by (simp add: fl_sub_def js_sub_def) (subst to_double_eval [where n = 49], simp_all add: round_half_even_def Let_def)
  have px2: "fl_mul (Num 10) (Num (5404319552844595 / 9007199254740992)) = Num 6"
    by (simp add: fl_mul_def) (subst to_double_eval [where n = 50], simp_all add: round_half_even_def Let_def)
  have x2: "fl_sub (Num 10) (Num 6) = Num 4"
    by (simp add: fl_sub_def js_sub_def) (subst to_double_eval [where n = 50], simp_all add: round_half_even_def Let_def)
  have dy2: "fl_sub (Num 20) (Num (- (469124961184427 / 140737488355328))) = Num (3283874728290987 / 140737488355328)"
    by (simp add: fl_sub_def js_sub_def) (subst to_double_eval [where n = 48], simp_all add: round_half_even_def Let_def)
  have py2: "fl_mul (Num (3283874728290987 / 140737488355328)) (Num (5404319552844595 / 9007199254740992)) = Num (7881299347898369 / 562949953421312)"
    by (simp add: fl_mul_def) (subst to_double_eval [where n = 49], simp_all add: round_half_even_def Let_def)
  have y2: "fl_sub (Num 20) (Num (7881299347898369 / 562949953421312)) = Num (3377699720527871 / 562949953421312)"
    by (simp add: fl_sub_def js_sub_def) (subst to_double_eval [where n = 50], simp_all add: round_half_even_def Let_def)
  show ?thesis
    unfolding getZoomedOffset_double_def Let_def fst_conv snd_conv
    by (simp only: q dx px x1 dy py y1 q2 dx2 px2 x2 dy2 py2 y2 simp_thms)
qed

text \<open>
  C2, as the code has it. Each of the four operations of \<open>getZoomedOffset\<close> is rounded to
  the nearest double. For anchors and translations of magnitude at most \<open>2 ^ 20\<close> and
  scales between \<open>MIN_SCALE\<close> and \<open>MAX_SCALE\<close>, the result is finite and within \<open>2 ^ -24\<close>
  of \<open>tx' = ax - (ax - tx) * (s' / s)\<close> and \<open>ty' = ay - (ay - ty) * (s' / s)\<close>, and zooming
  from \<open>s\<close> to \<open>s'\<close> and back to \<open>s\<close> at the same anchor returns a finite translation
  within \<open>2 ^ -19\<close> of the one it started from. The translation returned need not be the
  original one bit for bit.
\<close>

theorem getZoomedOffset_double_round_trip:
  assumes ax: "\<bar>ax\<bar> \<le> 2 ^ 20" and ay: "\<bar>ay\<bar> \<le> 2 ^ 20"
      and tx: "\<bar>tx\<bar> \<le> 2 ^ 20" and ty: "\<bar>ty\<bar> \<le> 2 ^ 20"
      and s: "MIN_SCALE \<le> s" "s \<le> MAX_SCALE" and s': "MIN_SCALE \<le> s'" "s' \<le> MAX_SCALE"
  shows "\<exists>x1 y1 x2 y2.
           getZoomedOffset_double (Num ax) (Num ay) (Num s) (Num s') (Num tx, Num ty) = (Num x1, Num y1)
         \<and> \<bar>x1 - (ax - (ax - tx) * (s' / s))\<bar> \<le> 1 / 2 ^ 24
         \<and> \<bar>y1 - (ay - (ay - ty) * (s' / s))\<bar> \<le> 1 / 2 ^ 24
         \<and> getZoomedOffset_double (Num ax) (Num ay) (Num s') (Num s) (Num x1, Num y1) = (Num x2, Num y2)
         \<and> \<bar>x2 - tx\<bar> \<le> 1 / 2 ^ 19
         \<and> \<bar>y2 - ty\<bar> \<le> 1 / 2 ^ 19"
proof -
  from s s' have pos: "0 < s" "0 < s'" and lo: "1 / 2 \<le> s" "1 / 2 \<le> s'" and hi: "s \<le> 8" "s' \<le> 8"
    by (simp_all add: MIN_SCALE_def MAX_SCALE_def)
  have r: "\<bar>s' / s\<bar> \<le> 16"
  proof -
    have "s' / s \<le> 8 / (1 / 2)" using pos lo hi by (intro frac_le) simp_all
    with pos show ?thesis by simp
  qed
  have r': "\<bar>s / s'\<bar> \<le> 16"
  proof -
    have "s / s' \<le> 8 / (1 / 2)" using pos lo hi by (intro frac_le) simp_all
    with pos show ?thesis by simp
  qed
  have rr: "s' / s * (s / s') = 1" using pos by simp
  obtain e2 where q: "fl_div (Num s') (Num s) = Num (s' / s + e2)" and e2: "\<bar>e2\<bar> \<le> 16 / 2 ^ 53"
    using pos by (auto intro: fl_div_Num [OF _ r])
  obtain e6 where q': "fl_div (Num s) (Num s') = Num (s / s' + e6)" and e6: "\<bar>e6\<bar> \<le> 16 / 2 ^ 53"
    using pos by (auto intro: fl_div_Num [OF _ r'])
  from e2 e6 have e2': "\<bar>e2\<bar> \<le> 1 / 2 ^ 49" and e6': "\<bar>e6\<bar> \<le> 1 / 2 ^ 49" by simp_all
  obtain x1 x2 where x:
      "fl_sub (Num ax) (fl_mul (fl_sub (Num ax) (Num tx)) (Num (s' / s + e2))) = Num x1"
      "\<bar>x1 - (ax - (ax - tx) * (s' / s))\<bar> \<le> 1 / 2 ^ 24"
      "fl_sub (Num ax) (fl_mul (fl_sub (Num ax) (Num x1)) (Num (s / s' + e6))) = Num x2"
      "\<bar>x2 - tx\<bar> \<le> 1 / 2 ^ 19"
    by (rule coordinate_round_trip [OF ax tx rr r r' e2' e6'])
  obtain y1 y2 where y:
      "fl_sub (Num ay) (fl_mul (fl_sub (Num ay) (Num ty)) (Num (s' / s + e2))) = Num y1"
      "\<bar>y1 - (ay - (ay - ty) * (s' / s))\<bar> \<le> 1 / 2 ^ 24"
      "fl_sub (Num ay) (fl_mul (fl_sub (Num ay) (Num y1)) (Num (s / s' + e6))) = Num y2"
      "\<bar>y2 - ty\<bar> \<le> 1 / 2 ^ 19"
    by (rule coordinate_round_trip [OF ay ty rr r r' e2' e6'])
  have forth: "getZoomedOffset_double (Num ax) (Num ay) (Num s) (Num s') (Num tx, Num ty) = (Num x1, Num y1)"
    by (simp add: getZoomedOffset_double_def Let_def q x(1) y(1))
  have backward: "getZoomedOffset_double (Num ax) (Num ay) (Num s') (Num s) (Num x1, Num y1) = (Num x2, Num y2)"
    by (simp add: getZoomedOffset_double_def Let_def q' x(3) y(3))
  from forth backward x(2,4) y(2,4) show ?thesis by blast
qed

theorem getZoomedOffset_double_round_trip_witness:
  "\<bar>10 :: real\<bar> \<le> 2 ^ 20 \<and> \<bar>20 :: real\<bar> \<le> 2 ^ 20 \<and> \<bar>4 :: real\<bar> \<le> 2 ^ 20 \<and> \<bar>6 :: real\<bar> \<le> 2 ^ 20
   \<and> MIN_SCALE \<le> 3 \<and> 3 \<le> MAX_SCALE \<and> MIN_SCALE \<le> 5 \<and> 5 \<le> MAX_SCALE
   \<and> getZoomedOffset_double (Num 10) (Num 20) (Num 3) (Num 5) (Num 4, Num 6) =
       (Num 0, Num (- (469124961184427 / 140737488355328)))
   \<and> getZoomedOffset_double (Num 10) (Num 20) (Num 5) (Num 3)
       (Num 0, Num (- (469124961184427 / 140737488355328))) =
       (Num 4, Num (3377699720527871 / 562949953421312))
   \<and> \<bar>3377699720527871 / 562949953421312 - 6\<bar> \<le> (1::real) / 2 ^ 19
   \<and> 3377699720527871 / 562949953421312 \<noteq> (6::real)"
proof -
  have range: "\<bar>10 :: real\<bar> \<le> 2 ^ 20" "\<bar>20 :: real\<bar> \<le> 2 ^ 20" "\<bar>4 :: real\<bar> \<le> 2 ^ 20" "\<bar>6 :: real\<bar> \<le> 2 ^ 20"
    by simp_all
  have scales: "MIN_SCALE \<le> 3" "3 \<le> MAX_SCALE" "MIN_SCALE \<le> 5" "5 \<le> MAX_SCALE"
    by (simp_all add: MIN_SCALE_def MAX_SCALE_def)
  note computed = round_trip_is_inexact
  from getZoomedOffset_double_round_trip [OF range scales(1,2) scales(3,4)]
  obtain x1 y1 x2 y2 where
      forth: "getZoomedOffset_double (Num 10) (Num 20) (Num 3) (Num 5) (Num 4, Num 6) = (Num x1, Num y1)"
    and backward: "getZoomedOffset_double (Num 10) (Num 20) (Num 5) (Num 3) (Num x1, Num y1) = (Num x2, Num y2)"
    and close: "\<bar>y2 - 6\<bar> \<le> 1 / 2 ^ 19"
    by blast
  from forth computed have "x1 = 0" "y1 = - (469124961184427 / 140737488355328)" by simp_all
  with backward computed have "y2 = 3377699720527871 / 562949953421312" by simp
  with close have "\<bar>3377699720527871 / 562949953421312 - 6\<bar> \<le> (1::real) / 2 ^ 19" by simp
  moreover have "3377699720527871 / 562949953421312 \<noteq> (6::real)" by simp
  ultimately show ?thesis using range scales computed by blast
qed

text \<open>
  The claim as stated fails: not every pair of nonzero scales makes the round trip. The
  scales \<open>2 ^ -600\<close> and \<open>2 ^ 600\<close> are doubles, and their quotient overflows to
  \<open>Infinity\<close>: zooming from the one to the other at the anchor \<open>(1, 1)\<close> sends the
  translation \<open>(0, 0)\<close> to \<open>(-Infinity, -Infinity)\<close>, and zooming back, where the quotient
  underflows to \<open>0\<close>, gives \<open>(NaN, NaN)\<close>.
\<close>

theorem zoom_round_trip_overflows:
  "getZoomedOffset_double (Num 1) (Num 1) (Num (1 / 2 ^ 600)) (Num (2 ^ 600)) (Num 0, Num 0) =
     (NegInfinity, NegInfinity)
   \<and> getZoomedOffset_double (Num 1) (Num 1) (Num (2 ^ 600)) (Num (1 / 2 ^ 600))
       (getZoomedOffset_double (Num 1) (Num 1) (Num (1 / 2 ^ 600)) (Num (2 ^ 600)) (Num 0, Num 0)) =
     (NaN, NaN)"
proof -
  have up: "fl_div (Num (2 ^ 600)) (Num (1 / 2 ^ 600)) = PosInfinity"
    by (simp add: fl_div_def to_double_overflow)
  have down: "fl_div (Num (1 / 2 ^ 600)) (Num (2 ^ 600)) = Num 0"
    by (simp add: fl_div_def to_double_underflow)
  have one: "fl_sub (Num 1) (Num 0) = Num 1"
    by (simp add: fl_sub_def js_sub_def to_double_one)
  have forth: "getZoomedOffset_double (Num 1) (Num 1) (Num (1 / 2 ^ 600)) (Num (2 ^ 600)) (Num 0, Num 0) =
     (NegInfinity, NegInfinity)"
    unfolding getZoomedOffset_double_def Let_def fst_conv snd_conv up one
    by (simp add: fl_mul_def fl_sub_def js_sub_def signed_infinity_def)
  have backward: "getZoomedOffset_double (Num 1) (Num 1) (Num (2 ^ 600)) (Num (1 / 2 ^ 600))
       (NegInfinity, NegInfinity) = (NaN, NaN)"
    unfolding getZoomedOffset_double_def Let_def fst_conv snd_conv down
    by (simp add: fl_mul_def fl_sub_def js_sub_def signed_infinity_def)
  show ?thesis by (simp only: forth backward)
qed

section \<open>The scale and translation invariant\<close>

text \<open>
  In this model, where a handler and the animation frame it requests are one step and
  finite arithmetic is exact, every handler keeps the invariant, except a two-finger move
  whose touch points coincide while the last recorded distance is \<open>0\<close>. So here every
  sequence of operations from the initial state without such a frame ends in a state with
  the scale in \<open>[MIN_SCALE, MAX_SCALE]\<close> and the translation at the origin whenever the
  scale is at most 1.
\<close>

lemma clamp_range:
  assumes "x \<noteq> NaN"
  shows "case Math_min (Math_max x (Num MIN_SCALE)) (Num MAX_SCALE) of
           Num s \<Rightarrow> MIN_SCALE \<le> s \<and> s \<le> MAX_SCALE | _ \<Rightarrow> False"
  using assms by (cases x) (simp_all add: Math_min_def Math_max_def MIN_SCALE_def MAX_SCALE_def)

lemma clamp_cases:
  assumes "x \<noteq> NaN"
  obtains s where "Math_min (Math_max x (Num MIN_SCALE)) (Num MAX_SCALE) = Num s"
    and "MIN_SCALE \<le> s" and "s \<le> MAX_SCALE"
  using clamp_range [OF assms] by (auto split: number.splits)

lemma Math_hypot_nonneg: "0 \<le> Math_hypot a b"
  by (simp add: Math_hypot_def)

lemma distanceChange_cases:
  assumes "0 \<le> cur" and "\<not> (cur = 0 \<and> prv = 0)"
  shows "(\<exists>q. js_div (Num cur) (Num prv) = Num q) \<or> js_div (Num cur) (Num prv) = PosInfinity"
  using assms by (auto simp: signed_infinity_def)

lemma pinch_scale_not_NaN:
  assumes "0 < s" and "(\<exists>q. dc = Num q) \<or> dc = PosInfinity"
  shows "js_mul (Num s) dc \<noteq> NaN" and "js_mul (js_mul (Num MOBILE_ZOOM_SPEED) (Num ZOOM_BIAS)) dc \<noteq> NaN"
  using assms by (auto simp: signed_infinity_def MOBILE_ZOOM_SPEED_def ZOOM_BIAS_def)

lemma inv_pinch:
  assumes inv: "viewer_inv v" and nd: "\<not> degenerate v (TouchMove [t1, t2] (Some r))"
  shows "viewer_inv (onTouchMove [t1, t2] (Some r) v)"
proof -
  define cur where "cur = Math_hypot (touch_clientX t1 - touch_clientX t2) (touch_clientY t1 - touch_clientY t2)"
  define dc where "dc = js_div (Num cur) (Num (lastTouchDistance v))"
  define newScale where "newScale = Math_min (Math_max (js_mul (scale v) dc) (Num MIN_SCALE)) (Num MAX_SCALE)"
  from inv obtain s where s: "scale v = Num s" "MIN_SCALE \<le> s"
    by (auto simp: viewer_inv_def transform_ok_def split: number.splits)
  then have spos: "0 < s" by (simp add: MIN_SCALE_def)
  have "0 \<le> cur" by (simp add: cur_def Math_hypot_nonneg)
  moreover from nd have "\<not> (cur = 0 \<and> lastTouchDistance v = 0)" by (simp add: cur_def)
  ultimately have dcc: "(\<exists>q. dc = Num q) \<or> dc = PosInfinity"
    unfolding dc_def by (rule distanceChange_cases)
  from pinch_scale_not_NaN [OF spos dcc] s
  have nn: "js_mul (scale v) dc \<noteq> NaN" "js_mul (js_mul (Num MOBILE_ZOOM_SPEED) (Num ZOOM_BIAS)) dc \<noteq> NaN"
    by simp_all
  obtain s' where s': "newScale = Num s'" "MIN_SCALE \<le> s'" "s' \<le> MAX_SCALE"
    unfolding newScale_def by (rule clamp_cases [OF nn(1)])
  have "onTouchMove [t1, t2] (Some r) v =
     (if js_le newScale (Num 1)
      then v\<lparr>wasDragging := True, position := (Num 0, Num 0), scale := newScale, zoomSpeed := Num ZOOM_SPEED\<rparr>
      else v\<lparr>wasDragging := True, position := getZoomedOffset
               (Num ((touch_clientX t1 + touch_clientX t2) / 2 - rect_left r - rect_width r / 2))
               (Num ((touch_clientY t1 + touch_clientY t2) / 2 - rect_top r - rect_height r / 2))
               (scale v) newScale (position v),
             scale := newScale,
             zoomSpeed := js_mul (js_mul (Num MOBILE_ZOOM_SPEED) (Num ZOOM_BIAS)) dc,
             lastTouchDistance := cur\<rparr>)"
    by (simp add: onTouchMove_def Let_def newScale_def dc_def cur_def)
  with s' nn(2) show ?thesis
    by (simp add: viewer_inv_def transform_ok_def)
qed

lemma inv_zoomIn: "viewer_inv v \<Longrightarrow> viewer_inv (handleZoomIn v)"
  by (auto simp: viewer_inv_def transform_ok_def handleZoomIn_def Let_def Math_min_def Math_max_def
        MIN_SCALE_def MAX_SCALE_def ZOOM_SPEED_def ZOOM_BIAS_def split: number.splits)

lemma inv_zoomOut: "viewer_inv v \<Longrightarrow> viewer_inv (handleZoomOut v)"
  by (auto simp: viewer_inv_def transform_ok_def handleZoomOut_def Let_def Math_min_def Math_max_def js_sub_def
        MIN_SCALE_def MAX_SCALE_def ZOOM_SPEED_def ZOOM_BIAS_def split: number.splits)

lemma inv_reset: "viewer_inv (handleResetZoom v)" "viewer_inv (handleReset v)"
  by (auto simp: viewer_inv_def transform_ok_def handleResetZoom_def handleReset_def 
        MIN_SCALE_def MAX_SCALE_def ZOOM_SPEED_def ZOOM_BIAS_def split: number.splits)

lemma inv_touchMove:
  assumes inv: "viewer_inv v" and nd: "\<not> degenerate v (TouchMove touches container)"
  shows "viewer_inv (onTouchMove touches container v)"
proof (cases "length touches = 2 \<and> container \<noteq> None")
  case True
  then obtain t1 t2 r where "touches = [t1, t2]" "container = Some r"
    by (cases touches; cases "tl touches"; auto)
  with inv nd show ?thesis using inv_pinch by simp
next
  case False
  with inv show ?thesis
    by (auto simp: onTouchMove_def Let_def viewer_inv_def transform_ok_def js_gt_def
             split: list.splits number.splits option.splits)
qed

lemma wheel_sum_not_NaN:
  assumes "zs \<noteq> NaN"
  shows "js_add (Num s) zs \<noteq> NaN" and "js_add (Num s) (js_neg zs) \<noteq> NaN"
  using assms by (cases zs; simp)+

lemma inv_wheel:
  assumes inv: "viewer_inv v"
  shows "viewer_inv (handleWheel e container v)"
proof (cases "(ctrlKey e \<or> metaKey e) \<and> container \<noteq> None")
  case False
  with inv show ?thesis by (auto simp: handleWheel_def)
next
  case True
  then obtain r where r: "container = Some r" by auto
  define delta where "delta = (if 0 < deltaY e then js_neg (zoomSpeed v) else zoomSpeed v)"
  define newScale where
    "newScale = Math_min (Math_max (js_add (scale v) delta) (Num MIN_SCALE)) (Num MAX_SCALE)"
  from inv obtain s where s: "scale v = Num s" and zs: "zoomSpeed v \<noteq> NaN"
    by (auto simp: viewer_inv_def transform_ok_def split: number.splits)
  have "js_add (scale v) delta \<noteq> NaN"
    using wheel_sum_not_NaN [OF zs, of s] by (simp add: s delta_def)
  then obtain s' where s': "newScale = Num s'" "MIN_SCALE \<le> s'" "s' \<le> MAX_SCALE"
    unfolding newScale_def by (rule clamp_cases)
  have "handleWheel e container v =
     (if js_le newScale (Num 1)
      then v\<lparr>position := (Num 0, Num 0), scale := newScale, zoomSpeed := Num ZOOM_SPEED\<rparr>
      else v\<lparr>position := getZoomedOffset
               (Num (clientX e - rect_left r - rect_width r / 2))
               (Num (clientY e - rect_top r - rect_height r / 2))
               (scale v) newScale (position v),
             scale := newScale,
             zoomSpeed := js_mul (js_mul (Num ZOOM_SPEED) (Num ZOOM_BIAS)) newScale\<rparr>)"
    using True by (simp add: handleWheel_def Let_def newScale_def delta_def r)
  with s' show ?thesis
    by (simp add: viewer_inv_def transform_ok_def)
qed

lemma inv_mouse:
  assumes "viewer_inv v"
  shows "viewer_inv (handleImageMouseDown e v)" and "viewer_inv (handleImageMouseMove e v)"
    and "viewer_inv (handleImageMouseUp v)"
  using assms
  by (auto simp: handleImageMouseDown_def handleImageMouseMove_def handleImageMouseUp_def
        viewer_inv_def transform_ok_def split: number.splits)

lemma inv_touchStart:
  assumes "viewer_inv v"
  shows "viewer_inv (onTouchStart touches v)"
  using assms
  by (auto simp: onTouchStart_def Let_def viewer_inv_def transform_ok_def
           split: list.splits number.splits)

lemma inv_touchEnd:
  assumes "viewer_inv v"
  shows "viewer_inv (onTouchEnd touches v)"
  using assms
  by (auto simp: onTouchEnd_def Let_def viewer_inv_def transform_ok_def
           split: list.splits number.splits)

lemma inv_doubleClick:
  assumes "viewer_inv v"
  shows "viewer_inv (onDoubleClick e container v)"
  using assms
  by (auto simp: onDoubleClick_def Let_def handleReset_def viewer_inv_def transform_ok_def
        MIN_SCALE_def MAX_SCALE_def ZOOM_SPEED_def
           split: option.splits number.splits)

lemma inv_keyDown:
  assumes "viewer_inv v"
  shows "viewer_inv (handleKeyDown e p n v)"
  using assms by (simp add: handleKeyDown_def inv_zoomIn inv_zoomOut inv_reset)

lemma inv_click:
  assumes "viewer_inv v"
  shows "viewer_inv (handleContainerClick v)" and "viewer_inv (handleImageClick v)"
  using assms
  by (auto simp: handleContainerClick_def handleImageClick_def viewer_inv_def transform_ok_def
           split: number.splits)

lemma inv_step:
  assumes "viewer_inv v" and "\<not> degenerate v a"
  shows "viewer_inv (apply_op v a)"
  using assms
  by (cases a)
     (simp_all add: inv_zoomIn inv_zoomOut inv_reset inv_wheel inv_mouse inv_touchStart
        inv_touchMove inv_touchEnd inv_doubleClick inv_keyDown inv_click)

lemma inv_run:
  assumes "viewer_inv v" and "no_degenerate_frame v ops"
  shows "viewer_inv (run_ops v ops)"
  using assms unfolding run_ops_def
  by (induction ops arbitrary: v) (simp_all add: inv_step)

lemma inv_initial: "viewer_inv initial_viewer"
  by (simp add: viewer_inv_def transform_ok_def initial_viewer_def MIN_SCALE_def MAX_SCALE_def)

lemma transform_ok_without_degenerate_frame:
  assumes "no_degenerate_frame initial_viewer ops"
  shows "transform_ok (run_ops initial_viewer ops)"
  using inv_run [OF inv_initial assms] by (simp add: viewer_inv_def)

text \<open>
  C3. Every sequence of viewer operations from the initial state should end with the
  scale in \<open>[MIN_SCALE, MAX_SCALE]\<close> and with the translation at the origin when the scale
  is at most 1. The code breaks this on the degenerate frame. Two touch points land on
  the same spot and a move follows with both still there: \<open>onTouchStart\<close> records the
  distance \<open>0\<close>, \<open>onTouchMove\<close> divides \<open>0\<close> by \<open>0\<close>, and \<open>Math.min\<close> and \<open>Math.max\<close> pass
  the \<open>NaN\<close> on: the scale is \<open>NaN\<close>, outside \<open>[MIN_SCALE, MAX_SCALE]\<close>, and so is the
  translation.
\<close>

theorem pinch_coincident_scale_NaN:
  "scale (run_ops initial_viewer [TouchStart coincident, TouchMove coincident (Some container0)]) = NaN
   \<and> position (run_ops initial_viewer [TouchStart coincident, TouchMove coincident (Some container0)])
       = (NaN, NaN)"
  by (simp add: run_ops_def onTouchStart_def onTouchMove_def coincident_def container0_def
        initial_viewer_def Let_def Math_hypot_def Math_min_def Math_max_def getZoomedOffset_def
        js_sub_def)

section \<open>Lifting one of two fingers\<close>









section \<open>Click disambiguation\<close>

text \<open>
  What the code guarantees for a pair of nearby clicks. Let two clicks on one surface,
  both with \<open>doubleClickDisabled\<close> false, be handled at \<open>t1\<close> and \<open>t2\<close> with \<open>t2 - t1\<close>
  below the threshold. The second click posts exactly one double-click event, with the second click's geometry, and
  changes nothing else but \<open>lastClickTime\<close>: it schedules no timer. The deferred evaluation
  of the first click posts nothing whenever it runs less than the threshold after the
  second click. A third click within the threshold of the second posts a second
  double-click, again with no timer. When the time stamps differ (\<open>t1 < t2\<close>), timers
  elapse on time, no timer is pending before the pair and the first click is not itself
  a double-click, the pair posts exactly one double-click event and no single-click
  event, however long one waits.
\<close>

theorem double_click_pair:
  assumes gap: "t2 - t1 < DOUBLE_CLICK_INTERVAL_THRESHOLD_MS c"
  shows
    "let st1 = handleClick c t1 bookKey False e1 st;
         st2 = handleClick c t2 bookKey False e2 st1
     in st2 = postMessage (Iframe_double_click bookKey (geometry_of e2) (getKeyStatus st1 (Some e2)))
                (st1\<lparr>lastClickTime := t2\<rparr>)
        \<and> (\<forall>T. T - t2 < DOUBLE_CLICK_INTERVAL_THRESHOLD_MS c \<longrightarrow>
               runCallback c T (DeferredSingleClick bookKey e1) st2 = st2)
        \<and> (\<forall>t3 e3. t3 - t2 < DOUBLE_CLICK_INTERVAL_THRESHOLD_MS c \<longrightarrow>
               handleClick c t3 bookKey False e3 st2 =
               postMessage (Iframe_double_click bookKey (geometry_of e3) (getKeyStatus st2 (Some e3)))
                 (st2\<lparr>lastClickTime := t3\<rparr>))
        \<and> (t1 < t2 \<and> timers st = [] \<and> DOUBLE_CLICK_INTERVAL_THRESHOLD_MS c \<le> t1 - lastClickTime st \<longrightarrow>
             (\<forall>T. posted (fire_due c T
                     (run c [(t1, Click bookKey False e1), (t2, Click bookKey False e2)] st)) =
                   posted st @ [Iframe_double_click bookKey (geometry_of e2) (getKeyStatus st (Some e2))]))"
proof -
  define st1 where "st1 = handleClick c t1 bookKey False e1 st"
  define st2 where "st2 = handleClick c t2 bookKey False e2 st1"
  have last1: "lastClickTime st1 = t1"
    by (simp add: st1_def handleClick_def postMessage_def setTimeout_def Let_def)
  have second: "st2 = postMessage (Iframe_double_click bookKey (geometry_of e2) (getKeyStatus st1 (Some e2)))
                (st1\<lparr>lastClickTime := t2\<rparr>)"
    unfolding st2_def using gap last1 by (rule_tac handleClick_double) simp_all
  have last2: "lastClickTime st2 = t2"
    by (simp add: second postMessage_def)
  have deferred: "runCallback c T (DeferredSingleClick bookKey e1) st2 = st2"
    if "T - t2 < DOUBLE_CLICK_INTERVAL_THRESHOLD_MS c" for T
    using that last2 by simp
  have third: "handleClick c t3 bookKey False e3 st2 =
               postMessage (Iframe_double_click bookKey (geometry_of e3) (getKeyStatus st2 (Some e3)))
                 (st2\<lparr>lastClickTime := t3\<rparr>)"
    if "t3 - t2 < DOUBLE_CLICK_INTERVAL_THRESHOLD_MS c" for t3 e3
    using that last2 by (rule_tac handleClick_double) simp_all
  have whole: "posted (fire_due c T
                     (run c [(t1, Click bookKey False e1), (t2, Click bookKey False e2)] st)) =
                   posted st @ [Iframe_double_click bookKey (geometry_of e2) (getKeyStatus st (Some e2))]"
    if "t1 < t2" "timers st = []" "DOUBLE_CLICK_INTERVAL_THRESHOLD_MS c \<le> t1 - lastClickTime st" for T
    using that gap
    by (simp add: run_def fire_due_def handleClick_def setTimeout_def clearTimeout_def
          postMessage_def getKeyStatus_def Let_def)
  from second deferred third whole show ?thesis
    unfolding Let_def st1_def [symmetric] st2_def [symmetric] by blast
qed

theorem double_click_pair_witness:
  "(1150::int) - 1000 < DOUBLE_CLICK_INTERVAL_THRESHOLD_MS scenario_constants
   \<and> (1000::int) < 1150
   \<and> posted (fire_due scenario_constants 5000
         (run scenario_constants
            [(1000, Click ''book'' False (click_at 1 1)), (1150, Click ''book'' False (click_at 2 2))]
            initial_module)) =
       [Iframe_double_click ''book'' ((2, 2), (2, 2), (2, 2)) no_keys]"
proof -
  have gap: "(1150::int) - 1000 < DOUBLE_CLICK_INTERVAL_THRESHOLD_MS scenario_constants"
    by (simp add: scenario_constants_def)
  have quiet: "(1000::int) < 1150 \<and> timers initial_module = []
      \<and> DOUBLE_CLICK_INTERVAL_THRESHOLD_MS scenario_constants \<le> 1000 - lastClickTime initial_module"
    by (simp add: scenario_defs)
  from double_click_pair [OF gap, of "''book''" "click_at 1 1" initial_module "click_at 2 2"] quiet
  have "posted (fire_due scenario_constants 5000
         (run scenario_constants
            [(1000, Click ''book'' False (click_at 1 1)), (1150, Click ''book'' False (click_at 2 2))]
            initial_module)) =
        posted initial_module @
          [Iframe_double_click ''book'' (geometry_of (click_at 2 2))
             (getKeyStatus initial_module (Some (click_at 2 2)))]"
    unfolding Let_def by blast
  with gap show ?thesis by (simp add: scenario_defs)
qed

text \<open>
  C1. A pair of clicks with a gap below the threshold should give exactly one
  double-click event and no single-click event. The code breaks this at gap 0. Two
  clicks are handled in the same millisecond, 10 ms after a mouse-down: the second click
  posts the double-click, and the first click's timer, running 250 ms after both, finds
  \<open>Date.now() - lastClickTime = 250\<close>, passes its test and posts a single-click for the
  first click as well.
\<close>

theorem double_click_same_millisecond:
  "posted (fire_due sample_constants 1250
     (run sample_constants
        [(990, Mousedown ''book'' (click_at 1 1)),
         (1000, Click ''book'' False (click_at 1 1)),
         (1000, Click ''book'' False (click_at 2 2))] initial_module)) =
   [Iframe_mousedown ''book'' 0 ((1, 1), (1, 1), (1, 1)) no_keys,
    Iframe_double_click ''book'' ((2, 2), (2, 2), (2, 2)) no_keys,
    Iframe_single_click ''book'' ((1, 1), (1, 1), (1, 1)) no_keys]"
  by (simp add: loop_defs scenario_defs)




lemma mousedown_times_snoc:
  "mousedown_times (steps @ [(now, a)]) =
     mousedown_times steps @ (case a of Deliver (Mousedown b e) \<Rightarrow> [now] | _ \<Rightarrow> [])"
  by (induction steps rule: mousedown_times.induct) (auto split: step.splits input.splits)

lemma postSingleClick_fields [simp]:
  "timers (postSingleClick b e st) = timers st"
  "nextTimerId (postSingleClick b e st) = nextTimerId st"
  "longHoldTimeout (postSingleClick b e st) = longHoldTimeout st"
  by (simp_all add: postSingleClick_def postMessage_def Let_def split: option.splits)

lemma inv_deliver:
  assumes "module_inv c steps st"
  shows "module_inv c (steps @ [(now, Deliver i)]) (deliver c now i st)"
proof (cases i)
  case (Mousedown b e)
  with assms show ?thesis
    by (auto simp: module_inv_def mousedown_times_snoc handleMousedown_def setTimeout_def
          postMessage_def long_hold_armed_def Let_def)
next
  case (Click b disabled e)
  with assms show ?thesis
    by (auto simp: module_inv_def mousedown_times_snoc handleClick_def setTimeout_def
          postMessage_def long_hold_armed_def Let_def)
qed (use assms in \<open>auto simp: module_inv_def mousedown_times_snoc handleKeydown_def handleKeyup_def
       handleMouseup_def postMessage_def long_hold_armed_def\<close>)

lemma runCallback_fields [simp]:
  "timers (runCallback c now cb st) = timers st"
  "nextTimerId (runCallback c now cb st) = nextTimerId st"
  by (cases cb; simp)+

lemma inv_fire:
  assumes inv: "module_inv c steps st"
  shows "module_inv c (steps @ [(now, Fire i)]) (do_step c now (Fire i) st)"
proof (cases "filter (\<lambda>t. timer_id t = i \<and> due t \<le> now) (timers st)")
  case Nil
  with inv show ?thesis by (simp add: module_inv_def mousedown_times_snoc)
next
  case (Cons t rest)
  then have "t \<in> set (filter (\<lambda>t. timer_id t = i \<and> due t \<le> now) (timers st))" by simp
  then have t: "t \<in> set (timers st)" "timer_id t = i" by simp_all
  have uniq: "u = t" if "u \<in> set (timers st)" "timer_id u = i" for u
    using inv t that by (auto simp: module_inv_def distinct_map inj_on_def)
  show ?thesis
  proof (cases "callback t")
    case ClearLongHold
    with inv Cons show ?thesis
      by (auto simp: module_inv_def mousedown_times_snoc clearTimeout_def distinct_map_filter)
  next
    case (DeferredSingleClick b e)
    have armed: "long_hold_armed (clearTimeout (Some i) (runCallback c now (callback t) st))"
      if "longHoldTimeout st \<noteq> None"
    proof -
      from inv that obtain u where u: "u \<in> set (timers st)" "callback u = ClearLongHold"
          "longHoldTimeout st = Some (timer_id u)"
        by (auto simp: module_inv_def long_hold_armed_def)
      with uniq DeferredSingleClick have "timer_id u \<noteq> i" by auto
      with u show ?thesis
        by (auto simp: long_hold_armed_def clearTimeout_def DeferredSingleClick)
    qed
    with inv Cons DeferredSingleClick show ?thesis
      by (auto simp: module_inv_def mousedown_times_snoc clearTimeout_def distinct_map_filter)
  qed
qed

lemma inv_exec: "module_inv c steps (exec c steps initial_module)"
proof (induction steps rule: rev_induct)
  case Nil
  show ?case by (simp add: exec_def module_inv_def initial_module_def)
next
  case (snoc a steps)
  obtain now b where a: "a = (now, b)" by (cases a)
  have "exec c (steps @ [a]) initial_module = do_step c now b (exec c steps initial_module)"
    by (simp add: exec_def a)
  with snoc show ?case
    by (cases b) (simp_all add: a inv_deliver inv_fire del: do_step.simps(2))
qed

lemma exec_Cons: "exec c ((now, a) # steps) st = exec c steps (do_step c now a st)"
  by (simp add: exec_def)

lemma punctual_last:
  assumes "punctual c (steps @ [(now, a)]) st"
  shows "\<forall>t \<in> set (timers (exec c steps st)). now \<le> due t"
  using assms
proof (induction steps arbitrary: st)
  case Nil
  then show ?case by (simp add: exec_def)
next
  case (Cons b steps)
  obtain n x where b: "b = (n, x)" by (cases b)
  from Cons.prems have "punctual c (steps @ [(now, a)]) (do_step c n x st)"
    by (simp add: b del: do_step.simps)
  from Cons.IH [OF this] show ?case by (simp add: b exec_Cons del: do_step.simps)
qed

text \<open>
  C9, as the code has it. The long-hold handle is one variable of the module, not one per
  surface. Let the state be reached from the module's initial state by any sequence of
  delivered inputs and timer firings, and let the click target pass the exclusion and
  footnote checks. Then \<open>postSingleClick\<close> posts the single-click event if the long-hold
  handle is set and otherwise returns the state unchanged, posting nothing. The handle is
  set only while a long-hold timer is armed: a pending timer that a mouse-down created,
  due \<open>LONG_HOLD_THRESHOLD\<close> after that mouse-down; when timers elapse on time, that
  mouse-down is at most \<open>LONG_HOLD_THRESHOLD\<close> before the evaluation. With no armed
  long-hold timer, and in particular when no mouse-down came before at all, the
  single-click is vetoed. The mouse-down may be one of any surface.
\<close>

theorem single_click_needs_long_hold:
  assumes tgt: "passes_target_checks (target e)"
  shows
    "let st = exec c steps initial_module
     in (longHoldTimeout st \<noteq> None \<longrightarrow>
           postSingleClick bookKey e st =
           postMessage (Iframe_single_click bookKey (geometry_of e) (getKeyStatus st (Some e))) st)
      \<and> (longHoldTimeout st = None \<longrightarrow> postSingleClick bookKey e st = st)
      \<and> (longHoldTimeout st \<noteq> None \<longrightarrow>
           (\<exists>t \<in> set (timers st). callback t = ClearLongHold \<and> longHoldTimeout st = Some (timer_id t)
              \<and> (\<exists>m \<in> set (mousedown_times steps). due t = m + LONG_HOLD_THRESHOLD c)))
      \<and> (longHoldTimeout st \<noteq> None \<and> punctual c (steps @ [(now, a)]) initial_module \<longrightarrow>
           (\<exists>m \<in> set (mousedown_times steps). now \<le> m + LONG_HOLD_THRESHOLD c))
      \<and> (\<not> long_hold_armed st \<longrightarrow> postSingleClick bookKey e st = st)
      \<and> (mousedown_times steps = [] \<longrightarrow> postSingleClick bookKey e st = st)"
proof -
  define st where "st = exec c steps initial_module"
  have inv: "module_inv c steps st" unfolding st_def by (rule inv_exec)
  have emit: "postSingleClick bookKey e st =
           postMessage (Iframe_single_click bookKey (geometry_of e) (getKeyStatus st (Some e))) st"
    if "longHoldTimeout st \<noteq> None"
    using that by (auto simp: postSingleClick_passes [OF tgt])
  have veto: "postSingleClick bookKey e st = st" if "longHoldTimeout st = None"
    using that by (simp add: postSingleClick_passes [OF tgt])
  have armed: "\<exists>t \<in> set (timers st). callback t = ClearLongHold \<and> longHoldTimeout st = Some (timer_id t)
              \<and> (\<exists>m \<in> set (mousedown_times steps). due t = m + LONG_HOLD_THRESHOLD c)"
    if "longHoldTimeout st \<noteq> None"
    using inv that unfolding module_inv_def long_hold_armed_def by blast
  have recent: "\<exists>m \<in> set (mousedown_times steps). now \<le> m + LONG_HOLD_THRESHOLD c"
    if "longHoldTimeout st \<noteq> None \<and> punctual c (steps @ [(now, a)]) initial_module"
  proof -
    from that armed obtain t m where t: "t \<in> set (timers st)" and m: "m \<in> set (mousedown_times steps)"
        and d: "due t = m + LONG_HOLD_THRESHOLD c"
      by blast
    from that punctual_last [of c steps now a initial_module] t have "now \<le> due t"
      by (simp add: st_def)
    with m d show ?thesis by auto
  qed
  have unarmed: "postSingleClick bookKey e st = st" if "\<not> long_hold_armed st"
  proof -
    from inv that have "longHoldTimeout st = None" unfolding module_inv_def by blast
    then show ?thesis by (rule veto)
  qed
  have never: "postSingleClick bookKey e st = st" if "mousedown_times steps = []"
  proof -
    from armed that have "longHoldTimeout st = None" by fastforce
    then show ?thesis by (rule veto)
  qed
  show ?thesis
    unfolding Let_def st_def [symmetric]
    by (intro conjI impI) (fact emit veto armed recent unarmed never)+
qed


theorem single_click_needs_long_hold_witness:
  "passes_target_checks (target (click_at 1 1))
   \<and> punctual sample_constants
        ([(900, Deliver (Mousedown ''book'' (click_at 1 1))),
          (1000, Deliver (Click ''book'' False (click_at 1 1)))] @ [(1250, Fire 2)]) initial_module
   \<and> longHoldTimeout
        (exec sample_constants
           [(900, Deliver (Mousedown ''book'' (click_at 1 1))),
            (1000, Deliver (Click ''book'' False (click_at 1 1)))] initial_module) = Some 1
   \<and> posted (postSingleClick ''book'' (click_at 1 1)
        (exec sample_constants
           [(900, Deliver (Mousedown ''book'' (click_at 1 1))),
            (1000, Deliver (Click ''book'' False (click_at 1 1)))] initial_module)) =
       [Iframe_mousedown ''book'' 0 ((1, 1), (1, 1), (1, 1)) no_keys,
        Iframe_single_click ''book'' ((1, 1), (1, 1), (1, 1)) no_keys]
   \<and> (\<exists>m \<in> set (mousedown_times
                   [(900, Deliver (Mousedown ''book'' (click_at 1 1))),
                    (1000, Deliver (Click ''book'' False (click_at 1 1)))]).
         1250 \<le> m + LONG_HOLD_THRESHOLD sample_constants)
   \<and> postSingleClick ''book'' (click_at 1 1) (exec sample_constants [] initial_module) =
       exec sample_constants [] initial_module"
proof -
  have tgt: "passes_target_checks (target (click_at 1 1))"
    by (simp add: passes_target_checks_def closest_opt_def click_at_def)
  let ?steps = "[(900, Deliver (Mousedown ''book'' (click_at 1 1))),
                 (1000, Deliver (Click ''book'' False (click_at 1 1)))]"
  let ?st = "exec sample_constants ?steps initial_module"
  have on_time: "punctual sample_constants (?steps @ [(1250, Fire 2)]) initial_module"
    by (simp add: handleMousedown_def handleClick_def setTimeout_def postMessage_def Let_def
          scenario_defs)
  have st: "longHoldTimeout ?st = Some 1"
      "posted ?st = [Iframe_mousedown ''book'' 0 ((1, 1), (1, 1), (1, 1)) no_keys]"
    by (simp_all add: exec_def handleMousedown_def handleClick_def setTimeout_def postMessage_def
          Let_def scenario_defs)
  note inst = single_click_needs_long_hold [OF tgt, of sample_constants ?steps "''book''" 1250 "Fire 2"]
  from inst st(1)
  have "postSingleClick ''book'' (click_at 1 1) ?st =
        postMessage (Iframe_single_click ''book'' (geometry_of (click_at 1 1))
                       (getKeyStatus ?st (Some (click_at 1 1)))) ?st"
    unfolding Let_def by simp
  then have "posted (postSingleClick ''book'' (click_at 1 1) ?st) =
        posted ?st @ [Iframe_single_click ''book'' (geometry_of (click_at 1 1))
                       (getKeyStatus ?st (Some (click_at 1 1)))]"
    by (simp add: postMessage_def)
  then have emitted: "posted (postSingleClick ''book'' (click_at 1 1) ?st) =
       [Iframe_mousedown ''book'' 0 ((1, 1), (1, 1), (1, 1)) no_keys,
        Iframe_single_click ''book'' ((1, 1), (1, 1), (1, 1)) no_keys]"
    by (simp add: st(2))
       (simp add: exec_def handleMousedown_def handleClick_def setTimeout_def postMessage_def
          Let_def scenario_defs)
  from inst st(1) on_time
  have recent: "\<exists>m \<in> set (mousedown_times ?steps). 1250 \<le> m + LONG_HOLD_THRESHOLD sample_constants"
    unfolding Let_def by simp
  from single_click_needs_long_hold [OF tgt, of sample_constants "[]" "''book''"]
  have "postSingleClick ''book'' (click_at 1 1) (exec sample_constants [] initial_module) =
       exec sample_constants [] initial_module"
    unfolding Let_def by simp
  with tgt on_time st(1) emitted recent show ?thesis by blast
qed

text \<open>
  The claim as stated fails: the long-hold timer is not armed for a surface. A mouse-down
  on surface \<open>A\<close> arms it, and a click on surface \<open>B\<close> 100 ms later, with no mouse-down on
  \<open>B\<close> at all, is posted as a single-click of \<open>B\<close>. The same click on \<open>B\<close> without the
  mouse-down on \<open>A\<close> posts nothing.
\<close>

theorem long_hold_crosses_surfaces:
  "posted (fire_due sample_constants 5000
     (run sample_constants
        [(900, Mousedown ''A'' (click_at 1 1)), (1000, Click ''B'' False (click_at 2 2))]
        initial_module)) =
   [Iframe_mousedown ''A'' 0 ((1, 1), (1, 1), (1, 1)) no_keys,
    Iframe_single_click ''B'' ((2, 2), (2, 2), (2, 2)) no_keys]
   \<and> posted (fire_due sample_constants 5000
       (run sample_constants [(1000, Click ''B'' False (click_at 2 2))] initial_module)) = []"
  by (simp add: loop_defs scenario_defs)

lemma retag_postMessage:
  "retag_state k (postMessage m s) = postMessage (retag_message k m) (retag_state k s)"
  by (simp add: retag_state_def postMessage_def)

lemma retag_fields [simp]:
  "lastClickTime (retag_state k s) = lastClickTime s"
  "longHoldTimeout (retag_state k s) = longHoldTimeout s"
  "keyboardState (retag_state k s) = keyboardState s"
  "nextTimerId (retag_state k s) = nextTimerId s"
  by (simp_all add: retag_state_def)

lemma retag_getKeyStatus [simp]: "getKeyStatus (retag_state k s) ev = getKeyStatus s ev"
  by (simp add: getKeyStatus_def split: option.splits)

lemma retag_postSingleClick:
  "postSingleClick k e (retag_state k s) = retag_state k (postSingleClick b e s)"
  by (auto simp: postSingleClick_def Let_def retag_postMessage split: option.splits)

lemma retag_lastClickTime_update:
  "retag_state k (s\<lparr>lastClickTime := n\<rparr>) = (retag_state k s)\<lparr>lastClickTime := n\<rparr>"
  by (simp add: retag_state_def)

lemma retag_setTimeout:
  "snd (setTimeout (retag_callback k cb) d now (retag_state k s)) = retag_state k (snd (setTimeout cb d now s))"
  "fst (setTimeout (retag_callback k cb) d now (retag_state k s)) = fst (setTimeout cb d now s)"
  by (simp_all add: setTimeout_def retag_state_def)

lemma retag_handleClick:
  "handleClick c now k disabled e (retag_state k s) = retag_state k (handleClick c now b disabled e s)"
  using retag_setTimeout(1) [of k "DeferredSingleClick b e"]
  by (simp add: handleClick_def Let_def retag_postMessage retag_lastClickTime_update [symmetric]
        retag_postSingleClick [of k e _ b])

lemma retag_handleMousedown:
  "handleMousedown c now k e (retag_state k s) = retag_state k (handleMousedown c now b e s)"
  by (simp add: handleMousedown_def setTimeout_def Let_def retag_state_def postMessage_def
        getKeyStatus_def)

lemma retag_deliver:
  "deliver c now (retag_input k i) (retag_state k s) = retag_state k (deliver c now i s)"
proof (cases i)
  case (Click b disabled e)
  then show ?thesis by (simp add: retag_handleClick)
next
  case (Mousedown b e)
  then show ?thesis by (simp add: retag_handleMousedown)
qed (simp_all add: handleKeydown_def handleKeyup_def handleMouseup_def retag_state_def
       postMessage_def getKeyStatus_def)

lemma retag_runCallback:
  "runCallback c now (retag_callback k cb) (retag_state k s) = retag_state k (runCallback c now cb s)"
  by (cases cb) (simp_all add: retag_postSingleClick, simp add: retag_state_def)

lemma retag_clearTimeout:
  "clearTimeout h (retag_state k s) = retag_state k (clearTimeout h s)"
  by (cases h) (simp_all add: clearTimeout_def retag_state_def filter_map o_def)

lemma retag_fire:
  "do_step c now (Fire i) (retag_state k s) = retag_state k (do_step c now (Fire i) s)"
proof -
  let ?f = "\<lambda>t::callback timer. t\<lparr>callback := retag_callback k (callback t)\<rparr>"
  have "filter (\<lambda>t. timer_id t = i \<and> due t \<le> now) (timers (retag_state k s)) =
        map ?f (filter (\<lambda>t. timer_id t = i \<and> due t \<le> now) (timers s))"
    by (simp add: retag_state_def filter_map o_def)
  then show ?thesis
    by (cases "filter (\<lambda>t. timer_id t = i \<and> due t \<le> now) (timers s)")
       (simp_all add: retag_clearTimeout retag_runCallback)
qed

lemma insort_key_retag:
  assumes "\<And>t. due (f t) = due t"
  shows "insort_key due (f x) (map f xs) = map f (insort_key due x xs)"
  using assms by (induction xs) simp_all

lemma sort_key_retag:
  assumes "\<And>t. due (f t) = due t"
  shows "sort_key due (map f xs) = map f (sort_key due xs)"
  using assms by (induction xs) (simp_all add: insort_key_retag)

lemma retag_fire_list:
  "foldl (\<lambda>s t. do_step c (due t) (Fire (timer_id t)) s) (retag_state k s)
       (map (\<lambda>t. t\<lparr>callback := retag_callback k (callback t)\<rparr>) ts) =
   retag_state k (foldl (\<lambda>s t. do_step c (due t) (Fire (timer_id t)) s) s ts)"
  by (induction ts arbitrary: s) (simp_all add: retag_fire del: do_step.simps)

lemma retag_fire_due:
  "fire_due c T (retag_state k s) = retag_state k (fire_due c T s)"
proof -
  let ?f = "\<lambda>t::callback timer. t\<lparr>callback := retag_callback k (callback t)\<rparr>"
  have "sort_key due (filter (\<lambda>t. due t \<le> T) (timers (retag_state k s))) =
        map ?f (sort_key due (filter (\<lambda>t. due t \<le> T) (timers s)))"
    by (simp add: retag_state_def filter_map o_def sort_key_retag)
  then show ?thesis
    by (simp add: fire_due_def retag_fire_list del: do_step.simps)
qed

lemma retag_run:
  "run c (map (\<lambda>(now, i). (now, retag_input k i)) inputs) (retag_state k s) =
   retag_state k (run c inputs s)"
  unfolding run_def
  by (induction inputs arbitrary: s) (simp_all add: retag_fire_due retag_deliver split: prod.splits)

lemma retag_initial: "retag_state k initial_module = initial_module"
  by (simp add: retag_state_def initial_module_def)

text \<open>
  C5, as the code has it. \<open>lastClickTime\<close> and \<open>longHoldTimeout\<close> are variables of the
  module, one for all surfaces. The \<open>bookKey\<close> of an input only tags the events it leads
  to: delivering an interleaved stream, and delivering the same stream with every
  \<open>bookKey\<close> replaced by one key, post the same events in the same order (their kinds,
  geometry and keyboard state), up to the tag. The clicks of two surfaces are classified
  as one stream.
\<close>

theorem classification_ignores_bookKey:
  "posted (fire_due c T (run c (map (\<lambda>(now, i). (now, retag_input k i)) inputs) initial_module)) =
   map (retag_message k) (posted (fire_due c T (run c inputs initial_module)))"
proof -
  have "fire_due c T (run c (map (\<lambda>(now, i). (now, retag_input k i)) inputs) (retag_state k initial_module)) =
        retag_state k (fire_due c T (run c inputs initial_module))"
    by (simp add: retag_run retag_fire_due)
  then show ?thesis
    by (simp add: retag_initial) (simp add: retag_state_def)
qed

theorem classification_ignores_bookKey_witness:
  "posted (fire_due sample_constants 5000
     (run sample_constants
        [(1000, Click ''B'' False (click_at 1 1)),
         (1050, Mousedown ''B'' (click_at 2 2)), (1100, Click ''B'' False (click_at 2 2))]
        initial_module)) =
   [Iframe_mousedown ''B'' 0 ((2, 2), (2, 2), (2, 2)) no_keys,
    Iframe_double_click ''B'' ((2, 2), (2, 2), (2, 2)) no_keys]"
proof -
  have run_AB: "posted (fire_due sample_constants 5000
     (run sample_constants
        [(1000, Click ''A'' False (click_at 1 1)),
         (1050, Mousedown ''B'' (click_at 2 2)), (1100, Click ''B'' False (click_at 2 2))]
        initial_module)) =
   [Iframe_mousedown ''B'' 0 ((2, 2), (2, 2), (2, 2)) no_keys,
    Iframe_double_click ''B'' ((2, 2), (2, 2), (2, 2)) no_keys]"
    by (simp add: loop_defs scenario_defs)
  from classification_ignores_bookKey [of sample_constants 5000 "''B''"
      "[(1000, Click ''A'' False (click_at 1 1)),
        (1050, Mousedown ''B'' (click_at 2 2)), (1100, Click ''B'' False (click_at 2 2))]"]
  show ?thesis by (simp add: run_AB)
qed

text \<open>
  The claim as stated fails. A mouse-down and a click on surface \<open>B\<close> alone give a
  single-click on \<open>B\<close>. With a click on surface \<open>A\<close> 100 ms before, the click on \<open>B\<close> is
  a double-click instead, and the click on \<open>A\<close> posts nothing.
\<close>

theorem surfaces_share_click_state:
  "posted (fire_due sample_constants 5000
     (run sample_constants
        [(1050, Mousedown ''B'' (click_at 2 2)), (1100, Click ''B'' False (click_at 2 2))]
        initial_module)) =
   [Iframe_mousedown ''B'' 0 ((2, 2), (2, 2), (2, 2)) no_keys,
    Iframe_single_click ''B'' ((2, 2), (2, 2), (2, 2)) no_keys]
   \<and> posted (fire_due sample_constants 5000
     (run sample_constants
        [(1000, Click ''A'' False (click_at 1 1)),
         (1050, Mousedown ''B'' (click_at 2 2)), (1100, Click ''B'' False (click_at 2 2))]
        initial_module)) =
   [Iframe_mousedown ''B'' 0 ((2, 2), (2, 2), (2, 2)) no_keys,
    Iframe_double_click ''B'' ((2, 2), (2, 2), (2, 2)) no_keys]"
  by (simp add: loop_defs scenario_defs)

section \<open>The long-press tracker\<close>

lemma clearTimeout_fields [simp]:
  "nextTimerId (clearTimeout h w) = nextTimerId w"
  "posted (clearTimeout h w) = posted w"
  by (simp_all add: clearTimeout_def split: option.splits)

lemma clearTimeout_timers:
  "timers (clearTimeout h w) =
     (case h of None \<Rightarrow> timers w | Some i \<Rightarrow> filter (\<lambda>t. timer_id t \<noteq> i) (timers w))"
  by (simp add: clearTimeout_def split: option.splits)

lemma clearTimeout_subset: "set (timers (clearTimeout h w)) \<subseteq> set (timers w)"
  by (auto simp: clearTimeout_timers split: option.splits)

lemma clearTimeout_removed:
  "t \<in> set (timers (clearTimeout h w)) \<Longrightarrow> h \<noteq> Some (timer_id t)"
  by (auto simp: clearTimeout_timers split: option.splits)

lemma clearTimeout_tracker_fields [simp]:
  "pressTimers (clearTimeout h st) = pressTimers st"
  "pressStartPositions (clearTimeout h st) = pressStartPositions st"
  "observing (clearTimeout h st) = observing st"
  "instrumented (clearTimeout h st) = instrumented st"
  by (simp_all add: clearTimeout_def split: option.splits)

lemma set_update_subset: "set (AList.update k v al) \<subseteq> insert (k, v) (set al)"
  by (induction al) auto

lemma startPress_None: "elementToTrack (press_target ev) = None \<Longrightarrow> startPress now ev st = st"
  by (simp add: startPress_def)

lemma startPress_Some:
  assumes "elementToTrack (press_target ev) = Some el"
  shows "timers (startPress now ev st) =
           timers (clearTimeout (map_of (pressTimers st) (ident el)) st)
           @ [\<lparr>timer_id = nextTimerId st, due = now + longPressDuration, callback = LongPress ev el\<rparr>]"
    and "nextTimerId (startPress now ev st) = Suc (nextTimerId st)"
    and "pressTimers (startPress now ev st) = AList.update (ident el) (nextTimerId st) (pressTimers st)"
    and "posted (startPress now ev st) = posted st"
    and "observing (startPress now ev st) = observing st"
    and "instrumented (startPress now ev st) = instrumented st"
  using assms
  by (auto simp: startPress_def setTimeout_def Let_def clearTimeout_timers
        split: press_event.splits list.splits option.splits)

lemma cancel_like_inv:
  assumes inv: "tracker_inv st"
  shows "tracker_inv ((clearTimeout (map_of (pressTimers st) k) st)
            \<lparr>pressTimers := AList.delete k (pressTimers st), pressStartPositions := ps\<rparr>)"
proof -
  let ?c = "clearTimeout (map_of (pressTimers st) k) st"
  have A: "\<forall>t \<in> set (timers ?c). timer_id t < nextTimerId st"
    using inv clearTimeout_subset [of "map_of (pressTimers st) k" st] by (auto simp: tracker_inv_def)
  have B: "\<forall>p \<in> set (AList.delete k (pressTimers st)). snd p < nextTimerId st"
    using inv by (auto simp: tracker_inv_def AList.delete_eq)
  have C: "distinct (map fst (AList.delete k (pressTimers st)))"
    using inv by (simp add: tracker_inv_def distinct_delete)
  have D: "\<forall>t \<in> set (timers ?c). timer_id t \<in> snd ` set (AList.delete k (pressTimers st))"
  proof
    fix t assume t: "t \<in> set (timers ?c)"
    then have t': "t \<in> set (timers st)" using clearTimeout_subset by blast
    from clearTimeout_removed [OF t] have ne: "map_of (pressTimers st) k \<noteq> Some (timer_id t)" .
    from inv t' obtain k' where k': "(k', timer_id t) \<in> set (pressTimers st)"
      by (auto simp: tracker_inv_def)
    with inv have "map_of (pressTimers st) k' = Some (timer_id t)"
      by (simp add: tracker_inv_def)
    with ne have "k' \<noteq> k" by auto
    with k' show "timer_id t \<in> snd ` set (AList.delete k (pressTimers st))"
      by (force simp: AList.delete_eq)
  qed
  from A B C D show ?thesis by (simp add: tracker_inv_def)
qed

lemma inv_handleMove: "tracker_inv st \<Longrightarrow> tracker_inv (handleMove ev st)"
  by (auto simp: handleMove_def Let_def cancel_like_inv split: option.splits prod.splits)

lemma inv_cancelPress: "tracker_inv st \<Longrightarrow> tracker_inv (cancelPress ev st)"
  by (auto simp: cancelPress_def cancel_like_inv split: option.splits)

lemma inv_startPress:
  assumes inv: "tracker_inv st"
  shows "tracker_inv (startPress now ev st)"
proof (cases "elementToTrack (press_target ev)")
  case None
  with inv show ?thesis by (simp add: startPress_None)
next
  case (Some el)
  note sp = startPress_Some [OF Some, of now st]
  let ?c = "clearTimeout (map_of (pressTimers st) (ident el)) st"
  let ?u = "AList.update (ident el) (nextTimerId st) (pressTimers st)"
  have A: "\<forall>t \<in> set (timers ?c). timer_id t < Suc (nextTimerId st)"
    using inv clearTimeout_subset [of "map_of (pressTimers st) (ident el)" st]
    by (auto simp: tracker_inv_def less_Suc_eq)
  have D: "\<forall>t \<in> set (timers ?c). timer_id t \<in> snd ` set ?u"
  proof
    fix t assume t: "t \<in> set (timers ?c)"
    then have t': "t \<in> set (timers st)" using clearTimeout_subset by blast
    from clearTimeout_removed [OF t] have ne: "map_of (pressTimers st) (ident el) \<noteq> Some (timer_id t)" .
    from inv t' obtain k' where k': "(k', timer_id t) \<in> set (pressTimers st)"
      by (auto simp: tracker_inv_def)
    with inv have m: "map_of (pressTimers st) k' = Some (timer_id t)"
      by (simp add: tracker_inv_def)
    with ne have "k' \<noteq> ident el" by auto
    with m have "map_of ?u k' = Some (timer_id t)"
      by (simp add: update_conv')
    then have "(k', timer_id t) \<in> set ?u"
      by (rule map_of_SomeD)
    then show "timer_id t \<in> snd ` set ?u" by force
  qed
  have new: "nextTimerId st \<in> snd ` set ?u"
  proof -
    have "map_of ?u (ident el) = Some (nextTimerId st)"
      by (simp add: update_conv')
    then have "(ident el, nextTimerId st) \<in> set ?u"
      by (rule map_of_SomeD)
    then show ?thesis by force
  qed
  have B: "\<forall>p \<in> set ?u. snd p < Suc (nextTimerId st)"
  proof
    fix p assume "p \<in> set ?u"
    then have "p = (ident el, nextTimerId st) \<or> p \<in> set (pressTimers st)"
      using set_update_subset [of "ident el" "nextTimerId st" "pressTimers st"] by auto
    with inv show "snd p < Suc (nextTimerId st)" by (auto simp: tracker_inv_def less_Suc_eq)
  qed
  from inv have C: "distinct (map fst ?u)"
    by (simp add: tracker_inv_def distinct_update)
  from A B C D new show ?thesis
    unfolding tracker_inv_def sp by simp
qed

lemma funpow_invariant:
  assumes "P s" and "\<And>s. P s \<Longrightarrow> P (f s)"
  shows "P ((f ^^ n) s)"
  using assms by (induction n) simp_all

lemma clear_all:
  fixes s0 :: tracker_state
  shows "foldl (\<lambda>s (el, timer). clearTimeout (Some timer) s) s0 ps =
         s0\<lparr>timers := filter (\<lambda>t. timer_id t \<notin> snd ` set ps) (timers s0)\<rparr>"
proof (induction ps arbitrary: s0)
  case Nil
  show ?case by simp
next
  case (Cons p ps)
  obtain el h where p: "p = (el, h)" by (cases p)
  have "filter (\<lambda>t. timer_id t \<notin> snd ` set ps) (filter (\<lambda>t. timer_id t \<noteq> h) (timers s0)) =
        filter (\<lambda>t. timer_id t \<notin> snd ` set (p # ps)) (timers s0)"
    by (auto simp: p intro: filter_cong)
  then show ?case by (simp add: p Cons clearTimeout_timers)
qed

lemma teardown_eq:
  "teardown st = st\<lparr>observing := False,
                     timers := filter (\<lambda>t. timer_id t \<notin> snd ` set (pressTimers st)) (timers st)\<rparr>"
  by (simp add: teardown_def clear_all)

lemma inv_teardown: "tracker_inv st \<Longrightarrow> tracker_inv (teardown st)"
  by (auto simp: teardown_eq tracker_inv_def)

lemma handleLongPress_fields [simp]:
  "timers (handleLongPress b sel el st) = timers st"
  "nextTimerId (handleLongPress b sel el st) = nextTimerId st"
  "pressTimers (handleLongPress b sel el st) = pressTimers st"
  "pressStartPositions (handleLongPress b sel el st) = pressStartPositions st"
  "observing (handleLongPress b sel el st) = observing st"
  "instrumented (handleLongPress b sel el st) = instrumented st"
  by (auto simp: handleLongPress_def postMessage_def split: option.splits)

lemma inv_fire_press: "tracker_inv st \<Longrightarrow> tracker_inv (fire_press b now i sel st)"
  by (auto simp: tracker_inv_def clearTimeout_timers split: list.splits press_callback.splits)

lemma inv_mutation: "tracker_inv st \<Longrightarrow> tracker_inv (mutationCallback h doc st)"
  by (simp add: mutationCallback_def processElements_def tracker_inv_def Let_def)

lemma inv_tracker_step:
  assumes "tracker_inv st"
  shows "tracker_inv (tracker_step b now a st)"
  using assms
  by (cases a)
     (simp_all add: funpow_invariant [where P = tracker_inv] inv_startPress inv_handleMove
        inv_cancelPress inv_mutation inv_fire_press inv_teardown del: fire_press.simps)

lemma tracker_run_snoc:
  "tracker_run b (inputs @ [(now, a)]) st = tracker_step b now a (tracker_run b inputs st)"
  by (simp add: tracker_run_def)

lemma inv_tracker_run:
  assumes "tracker_inv st"
  shows "tracker_inv (tracker_run b inputs st)"
proof (induction inputs rule: rev_induct)
  case Nil
  from assms show ?case by (simp add: tracker_run_def)
next
  case (snoc a inputs)
  then show ?case by (cases a) (simp add: tracker_run_snoc inv_tracker_step)
qed

lemma inv_addLongPressListeners: "tracker_inv (addLongPressListeners doc)"
  by (simp add: addLongPressListeners_def processElements_def tracker_inv_def Let_def)

lemma gone_clearTimeout: "gone i st \<Longrightarrow> gone i (clearTimeout h st)"
  using clearTimeout_subset [of h st] by (auto simp: gone_def pending_def)

lemma gone_startPress: "gone i st \<Longrightarrow> gone i (startPress now ev st)"
proof (cases "elementToTrack (press_target ev)")
  case None
  then show "gone i st \<Longrightarrow> ?thesis" by (simp add: startPress_None)
next
  case (Some el)
  assume g: "gone i st"
  from gone_clearTimeout [OF g, of "map_of (pressTimers st) (ident el)"] g
  show ?thesis
    by (auto simp: gone_def pending_def startPress_Some [OF Some])
qed

lemma gone_handleMove: "gone i st \<Longrightarrow> gone i (handleMove ev st)"
  using gone_clearTimeout [of i st]
  by (auto simp: handleMove_def Let_def gone_def pending_def split: option.splits prod.splits)

lemma gone_cancelPress: "gone i st \<Longrightarrow> gone i (cancelPress ev st)"
  using gone_clearTimeout [of i st]
  by (auto simp: cancelPress_def gone_def pending_def split: option.splits)

lemma gone_fire_press: "gone i st \<Longrightarrow> gone i (fire_press b now j sel st)"
  by (auto simp: gone_def pending_def clearTimeout_timers split: list.splits press_callback.splits)

lemma gone_teardown: "gone i st \<Longrightarrow> gone i (teardown st)"
  by (auto simp: teardown_eq gone_def pending_def)

lemma gone_mutation: "gone i st \<Longrightarrow> gone i (mutationCallback h doc st)"
  by (simp add: mutationCallback_def processElements_def gone_def pending_def Let_def)

lemma gone_tracker_step:
  assumes "gone i st"
  shows "gone i (tracker_step b now a st)"
  using assms
  by (cases a)
     (simp_all add: funpow_invariant [where P = "gone i"] gone_startPress gone_handleMove
        gone_cancelPress gone_mutation gone_fire_press gone_teardown del: fire_press.simps)

lemma gone_tracker_run:
  assumes "gone i st"
  shows "gone i (tracker_run b inputs st)"
proof (induction inputs rule: rev_induct)
  case Nil
  from assms show ?case by (simp add: tracker_run_def)
next
  case (snoc a inputs)
  then show ?case by (cases a) (simp add: tracker_run_snoc gone_tracker_step)
qed

lemma fire_press_not_pending: "\<not> pending i st \<Longrightarrow> fire_press b now i sel st = st"
proof -
  assume "\<not> pending i st"
  then have "filter (\<lambda>t. timer_id t = i \<and> due t \<le> now) (timers st) = []"
    by (auto simp: pending_def filter_empty_conv)
  then show ?thesis by simp
qed


lemma pressed_image_eq:
  "pressed_image =
     \<lparr>timers = [\<lparr>timer_id = 1, due = 500,
                   callback = LongPress (PressMouse cover_image 100 100) cover_image\<rparr>],
      nextTimerId = 2, posted = [],
      pressTimers = [(1, 1)], pressStartPositions = [(1, (100, 100))],
      observing = True, instrumented = {1}\<rparr>"
  by (simp add: pressed_image_def tracker_defs)




text \<open>
  What \<open>handleMove\<close> does cancel. It looks up the start position under the element that the
  move event's own target resolves to. In any state the tracker can reach, let a move
  event arrive whose target resolves to an element with a recorded press-start position,
  at a Euclidean distance from it above the threshold of 10 (the distance taken exactly).
  Then \<open>handleMove\<close> removes the element's timer and start-position entries and posts
  nothing, and the timer that was armed for the element is cancelled for good: whatever
  happens later and however much time passes, it is never pending again and firing it
  does nothing.
\<close>

theorem move_beyond_threshold_cancels:
  assumes reach: "st = tracker_run bookKey inputs (addLongPressListeners doc)"
      and el: "elementToTrack (press_target mv) = Some el"
      and start: "map_of (pressStartPositions st) (ident el) = Some (startX, startY)"
      and far: "moveThreshold <
                  sqrt ((fst (current_position mv) - startX)\<^sup>2 + (snd (current_position mv) - startY)\<^sup>2)"
  shows "map_of (pressTimers (handleMove mv st)) (ident el) = None
       \<and> map_of (pressStartPositions (handleMove mv st)) (ident el) = None
       \<and> posted (handleMove mv st) = posted st
       \<and> (\<forall>i. map_of (pressTimers st) (ident el) = Some i \<longrightarrow>
             (\<forall>later. \<not> pending i (tracker_run bookKey later (handleMove mv st)))
           \<and> (\<forall>later now selection.
                 fire_press bookKey now i selection (tracker_run bookKey later (handleMove mv st)) =
                 tracker_run bookKey later (handleMove mv st)))"
proof -
  have inv: "tracker_inv st"
    unfolding reach by (rule inv_tracker_run) (rule inv_addLongPressListeners)
  have moved: "handleMove mv st =
      (clearTimeout (map_of (pressTimers st) (ident el)) st)
         \<lparr>pressTimers := AList.delete (ident el) (pressTimers st),
          pressStartPositions := AList.delete (ident el) (pressStartPositions st)\<rparr>"
    using el start far by (cases "current_position mv") (simp add: handleMove_def)
  have entries: "map_of (pressTimers (handleMove mv st)) (ident el) = None"
      "map_of (pressStartPositions (handleMove mv st)) (ident el) = None"
      "posted (handleMove mv st) = posted st"
    by (simp_all add: moved delete_conv')
  have cancelled: "gone i (handleMove mv st)" if i: "map_of (pressTimers st) (ident el) = Some i" for i
  proof -
    from i have "(ident el, i) \<in> set (pressTimers st)" by (rule map_of_SomeD)
    with inv have "i < nextTimerId st" by (auto simp: tracker_inv_def)
    then show ?thesis
      by (auto simp: gone_def pending_def moved i clearTimeout_timers)
  qed
  have never: "\<not> pending i (tracker_run bookKey later (handleMove mv st))"
    if "map_of (pressTimers st) (ident el) = Some i" for i later
    using gone_tracker_run [OF cancelled [OF that]] by (simp add: gone_def)
  have silent: "fire_press bookKey now i selection (tracker_run bookKey later (handleMove mv st)) =
                 tracker_run bookKey later (handleMove mv st)"
    if "map_of (pressTimers st) (ident el) = Some i" for i later now selection
    using never [OF that] by (rule fire_press_not_pending)
  from entries never silent show ?thesis by blast
qed

theorem move_beyond_threshold_cancels_witness:
  "pressed_image = tracker_run ''book'' [(0, On_mousedown (PressMouse cover_image 100 100))]
       (addLongPressListeners [cover_image])
   \<and> elementToTrack (press_target (PressMouse cover_image 115 100)) = Some cover_image
   \<and> map_of (pressStartPositions pressed_image) (ident cover_image) = Some (100, 100)
   \<and> moveThreshold < sqrt ((fst (current_position (PressMouse cover_image 115 100)) - 100)\<^sup>2
                            + (snd (current_position (PressMouse cover_image 115 100)) - 100)\<^sup>2)
   \<and> map_of (pressTimers pressed_image) (ident cover_image) = Some 1
   \<and> map_of (pressTimers (handleMove (PressMouse cover_image 115 100) pressed_image)) (ident cover_image) = None
   \<and> map_of (pressStartPositions (handleMove (PressMouse cover_image 115 100) pressed_image))
        (ident cover_image) = None
   \<and> fire_press ''book'' 500 1 (Some [])
        (tracker_run ''book'' [] (handleMove (PressMouse cover_image 115 100) pressed_image)) =
      tracker_run ''book'' [] (handleMove (PressMouse cover_image 115 100) pressed_image)
   \<and> posted (fire_press ''book'' 500 1 (Some []) pressed_image) =
      [Iframe_long_press_image ''book'' ''cover.png'']"
proof -
  have reach: "pressed_image = tracker_run ''book'' [(0, On_mousedown (PressMouse cover_image 100 100))]
       (addLongPressListeners [cover_image])"
    by (simp add: pressed_image_def)
  have el: "elementToTrack (press_target (PressMouse cover_image 115 100)) = Some cover_image"
    by (simp add: elementToTrack_def cover_image_def)
  have start: "map_of (pressStartPositions pressed_image) (ident cover_image) = Some (100, 100)"
    by (simp add: pressed_image_eq cover_image_def)
  have far: "moveThreshold < sqrt ((fst (current_position (PressMouse cover_image 115 100)) - 100)\<^sup>2
                            + (snd (current_position (PressMouse cover_image 115 100)) - 100)\<^sup>2)"
    by (simp add: moveThreshold_def)
  have armed: "map_of (pressTimers pressed_image) (ident cover_image) = Some 1"
    by (simp add: pressed_image_eq cover_image_def)
  have fires: "posted (fire_press ''book'' 500 1 (Some []) pressed_image) =
      [Iframe_long_press_image ''book'' ''cover.png'']"
    by (simp add: pressed_image_eq handleLongPress_def postMessage_def clearTimeout_def cover_image_def)
  from move_beyond_threshold_cancels [OF reach el start far] armed
  have "map_of (pressTimers (handleMove (PressMouse cover_image 115 100) pressed_image)) (ident cover_image) = None"
    and "map_of (pressStartPositions (handleMove (PressMouse cover_image 115 100) pressed_image))
        (ident cover_image) = None"
    and "fire_press ''book'' 500 1 (Some [])
        (tracker_run ''book'' [] (handleMove (PressMouse cover_image 115 100) pressed_image)) =
      tracker_run ''book'' [] (handleMove (PressMouse cover_image 115 100) pressed_image)"
    by blast+
  with reach el start far armed fires show ?thesis by blast
qed

text \<open>
  C7. A move beyond the threshold should cancel the armed timer. The code misses the move
  whose target resolves to another element than the one pressed. The mouse goes down on a
  table cell at \<open>(100, 100)\<close>: the press is tracked under the table. The pointer moves 50
  units, onto an image inside the same table: \<open>handleMove\<close> resolves the image, finds no
  start position for it and returns. The table's timer stays armed and, 500 ms after the
  press, posts the long-press event. The same movement reported with the cell as its
  target cancels the timer.
\<close>

theorem move_onto_nested_image_keeps_timer:
  "posted (tracker_run ''book''
     [(0, On_mousedown (PressMouse figure_cell 100 100)),
      (200, On_mousemove (PressMouse figure_image 150 100)),
      (500, Timer_fires 1 (Some []))]
     (addLongPressListeners [figure_table, figure_image])) =
   [Iframe_long_press_table ''book'' ''<table><tr><td><img></td></tr></table>'']
   \<and> posted (tracker_run ''book''
     [(0, On_mousedown (PressMouse figure_cell 100 100)),
      (200, On_mousemove (PressMouse figure_cell 150 100)),
      (500, Timer_fires 1 (Some []))]
     (addLongPressListeners [figure_table, figure_image])) = []"
  by (simp add: tracker_defs figure_table_def figure_row_def figure_cell_def figure_image_def
        moveThreshold_def)

text \<open>
  C6, as the code has it. After the teardown, in any state the tracker can reach: the
  mutation observer is disconnected, so a mutation no longer runs \<open>processElements\<close>; no
  timer is pending, so no press that began before the teardown fires; the teardown itself
  posts nothing; and a second teardown changes nothing. The listeners stay on the
  elements.
\<close>

theorem teardown_clears_timers:
  "let st = teardown (tracker_run bookKey inputs (addLongPressListeners doc))
   in \<not> observing st \<and> timers st = []
      \<and> posted st = posted (tracker_run bookKey inputs (addLongPressListeners doc))
      \<and> instrumented st = instrumented (tracker_run bookKey inputs (addLongPressListeners doc))
      \<and> (\<forall>hasNewElements doc'. mutationCallback hasNewElements doc' st = st)
      \<and> (\<forall>now i selection. fire_press bookKey now i selection st = st)
      \<and> teardown st = st"
proof -
  define s0 where "s0 = tracker_run bookKey inputs (addLongPressListeners doc)"
  have inv: "tracker_inv s0"
    unfolding s0_def by (rule inv_tracker_run) (rule inv_addLongPressListeners)
  then have none: "timers (teardown s0) = []"
    by (auto simp: teardown_eq tracker_inv_def filter_empty_conv)
  have obs: "\<not> observing (teardown s0)" and post: "posted (teardown s0) = posted s0"
    and instr: "instrumented (teardown s0) = instrumented s0"
    by (simp_all add: teardown_eq)
  have mut: "mutationCallback h d (teardown s0) = teardown s0" for h d
    using obs by (simp add: mutationCallback_def)
  have fire: "fire_press bookKey now i selection (teardown s0) = teardown s0" for now i selection
    by (rule fire_press_not_pending) (simp add: pending_def none)
  have again: "teardown (teardown s0) = teardown s0"
    using none obs by (simp add: teardown_eq [of "teardown s0"])
  from none obs post instr mut fire again show ?thesis
    unfolding Let_def s0_def [symmetric] by simp
qed

theorem teardown_clears_timers_witness:
  "timers pressed_image \<noteq> []
   \<and> timers (teardown pressed_image) = []
   \<and> fire_press ''book'' 500 1 (Some []) (teardown pressed_image) = teardown pressed_image
   \<and> posted (teardown pressed_image) = []
   \<and> teardown (teardown pressed_image) = teardown pressed_image"
proof -
  from teardown_clears_timers [of "''book''" "[(0, On_mousedown (PressMouse cover_image 100 100))]"
      "[cover_image]"]
  have "timers (teardown pressed_image) = []"
    and "fire_press ''book'' 500 1 (Some []) (teardown pressed_image) = teardown pressed_image"
    and "posted (teardown pressed_image) = posted pressed_image"
    and "teardown (teardown pressed_image) = teardown pressed_image"
    unfolding Let_def pressed_image_def by blast+
  then show ?thesis by (simp add: pressed_image_eq)
qed

text \<open>
  The claim as stated fails for a press that begins after the teardown: the listeners
  are still attached, \<open>startPress\<close> arms a new timer, and 500 ms later the long-press
  event is posted.
\<close>

theorem teardown_then_press:
  "posted (tracker_run ''book''
     [(0, Teardown),
      (100, On_mousedown (PressMouse cover_image 5 5)),
      (600, Timer_fires 1 (Some []))]
     (addLongPressListeners [cover_image])) =
   [Iframe_long_press_image ''book'' ''cover.png'']"
  by (simp add: tracker_defs)

end
